theory Spec2Isabelle
  imports Main "HOL-Library.Char_ord" "HOL-Library.List_Lexorder" "HOL-Library.Product_Lexorder"
begin

section \<open>Python values\<close>

text \<open>
  Python's \<^verbatim>\<open>str\<close> is modelled as \<^typ>\<open>string\<close> (one \<^typ>\<open>char\<close> per character, so only
  characters up to code point 255 are representable), Python's unbounded \<^verbatim>\<open>int\<close> as
  \<^typ>\<open>int\<close>, and a raised exception as the left summand of a sum type.
\<close>

datatype py_error =
    KeyError string
  | IndexError
  | ValueError
  | TypeError
  | AttributeError

abbreviation NL :: char where
  "NL \<equiv> CHR 0x0A"

abbreviation DQ :: char where
  "DQ \<equiv> CHR 0x22"

text \<open>\<^verbatim>\<open>str(n)\<close> and \<^verbatim>\<open>f"{n}"\<close> for an integer: decimal digits, with a minus sign when negative.\<close>

definition digit_char :: "nat \<Rightarrow> char" where
  "digit_char d = ''0123456789'' ! d"

fun str_nat :: "nat \<Rightarrow> string" where
  "str_nat n = (if n < 10 then [digit_char n] else str_nat (n div 10) @ [digit_char (n mod 10)])"

declare str_nat.simps [simp del]

definition str_int :: "int \<Rightarrow> string" where
  "str_int i = (if i < 0 then CHR ''-'' # str_nat (nat (- i)) else str_nat (nat i))"

text \<open>
  \<^verbatim>\<open>f"{n:06d}"\<close>: zero fill to a minimum width of six characters. The fill is sign-aware:
  the minus sign comes first and counts towards the width, the zeros follow it. A number
  with more digits is printed in full.
\<close>

definition zero_fill :: "nat \<Rightarrow> string \<Rightarrow> string" where
  "zero_fill width digits = replicate (width - length digits) (CHR ''0'') @ digits"

definition format_06d :: "int \<Rightarrow> string" where
  "format_06d i =
     (if i < 0 then CHR ''-'' # zero_fill 5 (str_nat (nat (- i))) else zero_fill 6 (str_nat (nat i)))"

text \<open>\<^verbatim>\<open>sep.join(parts)\<close>.\<close>

fun py_join :: "string \<Rightarrow> string list \<Rightarrow> string" where
  "py_join sep [] = []"
| "py_join sep [x] = x"
| "py_join sep (x # y # ys) = x @ sep @ py_join sep (y # ys)"

text \<open>
  \<^verbatim>\<open>str.isspace\<close> on one character, for the code points a \<^typ>\<open>char\<close> can hold: the
  ASCII controls 9 to 13 and 28 to 31, the space, NEL (133) and the no-break space (160).
\<close>

definition is_space :: "char \<Rightarrow> bool" where
  "is_space c = (of_char c \<in> {9, 10, 11, 12, 13, 28, 29, 30, 31, 32, 133, 160 :: nat})"

definition lstrip :: "string \<Rightarrow> string" where
  "lstrip s = dropWhile is_space s"

definition rstrip :: "string \<Rightarrow> string" where
  "rstrip s = rev (dropWhile is_space (rev s))"

definition strip :: "string \<Rightarrow> string" where
  "strip s = rstrip (lstrip s)"

text \<open>
  \<^verbatim>\<open>s[i:j]\<close>, where either bound may be \<^verbatim>\<open>None\<close>: a negative bound counts from the end,
  and every bound is clamped to the string.
\<close>

definition slice_bound :: "nat \<Rightarrow> int \<Rightarrow> nat" where
  "slice_bound n i = (if i < 0 then nat (int n + i) else min n (nat i))"

definition py_slice :: "string \<Rightarrow> int option \<Rightarrow> int option \<Rightarrow> string" where
  "py_slice s i j =
     (let lo = (case i of None \<Rightarrow> 0 | Some i' \<Rightarrow> slice_bound (length s) i');
          hi = (case j of None \<Rightarrow> length s | Some j' \<Rightarrow> slice_bound (length s) j')
      in take (hi - lo) (drop lo s))"

text \<open>\<^verbatim>\<open>s.replace('\\n', ' ')\<close>.\<close>

definition replace_newlines :: "string \<Rightarrow> string" where
  "replace_newlines s = map (\<lambda>c. if c = NL then CHR '' '' else c) s"

text \<open>
  \<^verbatim>\<open>s.rfind(' ', 0, stop)\<close> for a non-negative \<open>stop\<close>: the highest index below \<open>stop\<close> that
  holds a space, or \<open>-1\<close>.
\<close>

definition rfind_space :: "string \<Rightarrow> nat \<Rightarrow> int" where
  "rfind_space s stop =
     (case filter (\<lambda>i. s ! i = CHR '' '') (rev [0..<min stop (length s)]) of
        [] \<Rightarrow> - 1
      | i # _ \<Rightarrow> int i)"

text \<open>The JSON-shaped values the exporters build: strings, integers, lists and dictionaries.\<close>

datatype json =
    JStr string
  | JInt int
  | JList "json list"
  | JDict "(string \<times> json) list"

section \<open>Tokens and anchor resolution (globalise-extract-text.py)\<close>

text \<open>
  The dataclass \<^verbatim>\<open>GTToken\<close> (text, text_with_ws, offset). Python's \<^verbatim>\<open>str\<close> is modelled
  as \<^typ>\<open>string\<close> and Python's unbounded \<^verbatim>\<open>int\<close> as \<^typ>\<open>int\<close>. The field names carry
  the prefix \<open>tok_\<close> because \<open>text\<close> is a keyword and \<open>offset\<close> is also a field of
  \<^verbatim>\<open>Annotation\<close>.
\<close>

record GTToken =
  tok_text :: string
  tok_text_with_ws :: string
  tok_offset :: int

text \<open>
  \<^verbatim>\<open>
  def segment_range(tokens, char_range_begin, char_range_end):
      begin_idx = 0
      end_idx = 0
      for i, token in enumerate(tokens):
          if -1 < token.offset <= char_range_begin:
              begin_idx = i
          if -1 < token.offset < char_range_end:
              end_idx = i
          elif -1 < token.offset:
              break
      return begin_idx, end_idx
  \<close>
  The loop runs over \<^verbatim>\<open>enumerate(tokens)\<close>; the pair \<open>(begin_idx, end_idx)\<close> is the loop
  state. Indices produced by \<^verbatim>\<open>enumerate\<close> are natural numbers.
\<close>

fun segment_range_loop :: "(nat \<times> GTToken) list \<Rightarrow> int \<Rightarrow> int \<Rightarrow> nat \<times> nat \<Rightarrow> nat \<times> nat" where
  "segment_range_loop [] char_range_begin char_range_end (begin_idx, end_idx) = (begin_idx, end_idx)"
| "segment_range_loop ((i, token) # rest) char_range_begin char_range_end (begin_idx, end_idx) =
     (let begin_idx' =
            (if -1 < tok_offset token \<and> tok_offset token \<le> char_range_begin then i else begin_idx)
      in if -1 < tok_offset token \<and> tok_offset token < char_range_end
         then segment_range_loop rest char_range_begin char_range_end (begin_idx', i)
         else if -1 < tok_offset token
         then (begin_idx', end_idx)
         else segment_range_loop rest char_range_begin char_range_end (begin_idx', end_idx))"

definition segment_range :: "GTToken list \<Rightarrow> int \<Rightarrow> int \<Rightarrow> nat \<times> nat" where
  "segment_range tokens char_range_begin char_range_end =
     segment_range_loop (enumerate 0 tokens) char_range_begin char_range_end (0, 0)"

subsection \<open>Vocabulary for stating the scan\<close>

text \<open>A real token is one that is not a paragraph sentinel: the source tests \<^verbatim>\<open>-1 < offset\<close>.\<close>

definition is_real :: "GTToken \<Rightarrow> bool" where
  "is_real token = (-1 < tok_offset token)"

text \<open>
  The tokens the loop visits: everything up to and including the first real token whose
  offset reaches or exceeds the end of the range (the whole list when there is none).
\<close>

definition visited :: "GTToken list \<Rightarrow> int \<Rightarrow> GTToken list" where
  "visited tokens char_range_end =
     take (Suc (length (takeWhile (\<lambda>t. \<not> (is_real t \<and> char_range_end \<le> tok_offset t)) tokens))) tokens"

text \<open>The offsets of the real tokens, in sequence order.\<close>

definition real_offsets :: "GTToken list \<Rightarrow> int list" where
  "real_offsets tokens = map tok_offset (filter is_real tokens)"

text \<open>The tokens of scenario 2: \<^verbatim>\<open>"Go home.\n"\<close>, followed by the paragraph sentinel.\<close>

definition go_home_tokens :: "GTToken list" where
  "go_home_tokens =
     [\<lparr>tok_text = ''Go'', tok_text_with_ws = ''Go '', tok_offset = 0\<rparr>,
      \<lparr>tok_text = ''home'', tok_text_with_ws = ''home'', tok_offset = 3\<rparr>,
      \<lparr>tok_text = ''.'', tok_text_with_ws = ''.'', tok_offset = 7\<rparr>,
      \<lparr>tok_text = '''', tok_text_with_ws = '''', tok_offset = -1\<rparr>]"

subsection \<open>Tokenization\<close>

text \<open>
  The spaCy pipeline \<^verbatim>\<open>nlp\<close> is an argument: for a paragraph it gives the sentences, each a
  list of tokens with \<^verbatim>\<open>text\<close>, \<^verbatim>\<open>text_with_ws\<close> and \<^verbatim>\<open>idx\<close>, the character offset of the token
  in the paragraph.
  \<^verbatim>\<open>
  def tokenize_per_paragraph(all_pars):
      tokens = []
      text_offset = 0
      for par in all_pars:
          doc = nlp(par)
          for sentence in doc.sents:
              for token in [t for t in sentence if t.text != "\n"]:
                  offset = text_offset + token.idx
                  tokens.append(GTToken(token.text, token.text_with_ws, offset))
          tokens.append(GTToken("", "", -1))
          text_offset += len(par)
      return tokens
  \<close>
\<close>

record spacy_token =
  sp_text :: string
  sp_text_with_ws :: string
  sp_idx :: int

definition paragraph_tokens :: "int \<Rightarrow> spacy_token list list \<Rightarrow> GTToken list" where
  "paragraph_tokens text_offset sents =
     concat (map (\<lambda>sentence.
                    map (\<lambda>token. \<lparr>tok_text = sp_text token,
                                    tok_text_with_ws = sp_text_with_ws token,
                                    tok_offset = text_offset + sp_idx token\<rparr>)
                        (filter (\<lambda>t. sp_text t \<noteq> [NL]) sentence))
                 sents)"

fun tokenize_loop :: "(string \<Rightarrow> spacy_token list list) \<Rightarrow> string list \<Rightarrow> GTToken list \<times> int \<Rightarrow> GTToken list" where
  "tokenize_loop nlp [] (tokens, text_offset) = tokens"
| "tokenize_loop nlp (par # rest) (tokens, text_offset) =
     tokenize_loop nlp rest
       (tokens @ paragraph_tokens text_offset (nlp par)
               @ [\<lparr>tok_text = '''', tok_text_with_ws = '''', tok_offset = - 1\<rparr>],
        text_offset + int (length par))"

definition tokenize_per_paragraph :: "(string \<Rightarrow> spacy_token list list) \<Rightarrow> string list \<Rightarrow> GTToken list" where
  "tokenize_per_paragraph nlp all_pars = tokenize_loop nlp all_pars ([], 0)"

section \<open>Annotations (globalise-extract-text.py)\<close>

text \<open>
  \<^verbatim>\<open>Coords\<close> comes from the pagexml library: the polygon's points and its bounding box.
  The library derives \<^verbatim>\<open>box['x'], box['y'], box['w'], box['h']\<close> and the properties
  \<^verbatim>\<open>left, top, width, height\<close> from the same four numbers, which are fields here.
\<close>

record Coords =
  points :: "(int \<times> int) list"
  box_x :: int
  box_y :: int
  box_w :: int
  box_h :: int

text \<open>
  The \<^verbatim>\<open>metadata\<close> dictionary of an annotation. The code reads two keys: \<^verbatim>\<open>"text"\<close>, a
  string, and \<^verbatim>\<open>"coords"\<close>, which holds either one \<^verbatim>\<open>Coords\<close> or a list of them. A key that
  is absent is \<^const>\<open>None\<close>; the remaining keys are kept as they are.
\<close>

datatype coords_value =
    OneCoords Coords
  | ManyCoords "Coords list"

record Metadata =
  md_text :: "string option"
  md_coords :: "coords_value option"
  md_other :: "(string \<times> json) list"

text \<open>
  The dataclass \<^verbatim>\<open>Annotation\<close>. The fields carry the prefix \<open>ann_\<close> (\<open>type\<close>, \<open>id\<close> and
  \<open>length\<close> are taken in HOL).
\<close>

record Annotation =
  ann_type :: string
  ann_id :: string
  ann_page_id :: string
  ann_offset :: int
  ann_length :: int
  ann_segmented_version_id :: string
  ann_begin_anchor :: int
  ann_end_anchor :: int
  ann_txt_version_id :: string
  ann_char_start :: int
  ann_char_end :: int
  ann_metadata :: Metadata

subsection \<open>Page lookup\<close>

text \<open>
  \<^verbatim>\<open>
  def get_page_id(offset, length, scan_ranges) -> str:
      range_start = offset
      range_end = offset + length
      overlapping_ranges = [sr for sr in scan_ranges.items()
                            if sr[1][0] <= range_start < sr[1][1]]
      if len(overlapping_ranges) == 1:
          return overlapping_ranges[0][0]
      else:
          ic(range_start, range_end, overlapping_ranges)
          return ":placeholder:"
  \<close>
  \<^verbatim>\<open>scan_ranges\<close> is a dictionary from page id to \<open>(start, end)\<close>; its items are an
  association list whose keys are distinct. The call of \<^verbatim>\<open>ic\<close> prints a diagnostic; the
  model returns the diagnostics next to the page id.
\<close>

datatype diagnostic =
  Ic int int "(string \<times> int \<times> int) list"

definition get_page_id :: "int \<Rightarrow> int \<Rightarrow> (string \<times> int \<times> int) list \<Rightarrow> string \<times> diagnostic list" where
  "get_page_id offset len scan_ranges =
     (let range_start = offset;
          range_end = offset + len;
          overlapping_ranges =
            filter (\<lambda>sr. fst (snd sr) \<le> range_start \<and> range_start < snd (snd sr)) scan_ranges
      in if length overlapping_ranges = 1
         then (fst (hd overlapping_ranges), [])
         else ('':placeholder:'', [Ic range_start range_end overlapping_ranges]))"

subsection \<open>CoNLL export\<close>

text \<open>
  \<^verbatim>\<open>
  def to_conll2002(token: str) -> str:
      return "\n" if token in ["", "\n"] else f"{token} O\n"

  def as_conll2002(tokens):
      return [to_conll2002(t) for t in tokens]
  \<close>
  and, in \<^verbatim>\<open>export\<close>, \<^verbatim>\<open>f.writelines(as_conll2002([t.text for t in tokens]))\<close>: the file holds
  the concatenation of the strings.
\<close>

definition to_conll2002 :: "string \<Rightarrow> string" where
  "to_conll2002 token =
     (if token \<in> set ['''', [NL]] then [NL] else token @ '' O'' @ [NL])"

definition as_conll2002 :: "string list \<Rightarrow> string list" where
  "as_conll2002 tokens = map to_conll2002 tokens"

definition export_conll :: "GTToken list \<Rightarrow> string" where
  "export_conll tokens = concat (as_conll2002 (map tok_text tokens))"

subsection \<open>Ordering before export\<close>

text \<open>
  In \<^verbatim>\<open>process_directory_group\<close>:
  \<^verbatim>\<open>
  all_annotations.sort(key=lambda a: f"{a.page_id} {a.offset:06d} {(1000 - a.length):06d}")
  \<close>
  The key is a string, compared character by character; \<^verbatim>\<open>list.sort\<close> is stable, and so is
  \<^const>\<open>sort_key\<close>.
\<close>

definition annotation_sort_key :: "Annotation \<Rightarrow> string" where
  "annotation_sort_key a =
     ann_page_id a @ '' '' @ format_06d (ann_offset a) @ '' '' @ format_06d (1000 - ann_length a)"

definition sort_annotations :: "Annotation list \<Rightarrow> Annotation list" where
  "sort_annotations all_annotations = sort_key annotation_sort_key all_annotations"

section \<open>Web annotation targets (globalise-extract-text.py)\<close>

text \<open>Sequencing of computations that may raise.\<close>

definition and_then :: "'e + 'a \<Rightarrow> ('a \<Rightarrow> 'e + 'b) \<Rightarrow> 'e + 'b" where
  "and_then m f = (case m of Inl e \<Rightarrow> Inl e | Inr x \<Rightarrow> f x)"

text \<open>\<^verbatim>\<open>d[key]\<close> on a JSON value.\<close>

definition json_get :: "json \<Rightarrow> string \<Rightarrow> py_error + json" where
  "json_get j key =
     (case j of
        JDict kvs \<Rightarrow> (case map_of kvs key of None \<Rightarrow> Inl (KeyError key) | Some v \<Rightarrow> Inr v)
      | _ \<Rightarrow> Inl TypeError)"

text \<open>\<^verbatim>\<open>max(xs)\<close> and \<^verbatim>\<open>min(xs)\<close>: a ValueError on the empty list.\<close>

definition py_max :: "int list \<Rightarrow> py_error + int" where
  "py_max xs = (case xs of [] \<Rightarrow> Inl ValueError | x # rest \<Rightarrow> Inr (fold max rest x))"

definition py_min :: "int list \<Rightarrow> py_error + int" where
  "py_min xs = (case xs of [] \<Rightarrow> Inl ValueError | x # rest \<Rightarrow> Inr (fold min rest x))"

text \<open>
  \<^verbatim>\<open>get_iiif_base_url(page_id)\<close> reads the module-level dictionary \<^verbatim>\<open>iiif_base_url_idx\<close>, which
  the functions below take as an argument.
\<close>

definition get_iiif_base_url :: "(string \<rightharpoonup> string) \<Rightarrow> string \<Rightarrow> py_error + string" where
  "get_iiif_base_url iiif_base_url_idx page_id =
     (case iiif_base_url_idx page_id of None \<Rightarrow> Inl (KeyError page_id) | Some url \<Rightarrow> Inr url)"

definition REPUBLIC_CONTEXT :: string where
  "REPUBLIC_CONTEXT = ''https://brambg.github.io/ns/republic.jsonld''"

text \<open>
  \<^verbatim>\<open>make_text_targets(textrepo_base_url, annotation)\<close> builds three dictionaries,
  \<^verbatim>\<open>text_anchor_selector_target\<close>, \<^verbatim>\<open>cutout_target\<close> and \<^verbatim>\<open>fragment_selector_target\<close>, and ends
  with \<^verbatim>\<open>return [text_anchor_selector_target, cutout_target]\<close>.
\<close>

definition make_text_targets :: "string \<Rightarrow> Annotation \<Rightarrow> json list" where
  "make_text_targets textrepo_base_url annotation =
     (let text_anchor_selector_target = JDict
            [(''source'', JStr (textrepo_base_url @ ''/rest/versions/''
                                @ ann_segmented_version_id annotation @ ''/contents'')),
             (''type'', JStr ''Text''),
             (''selector'', JDict
                [(''@context'', JStr REPUBLIC_CONTEXT),
                 (''type'', JStr ''urn:republic:TextAnchorSelector''),
                 (''start'', JInt (ann_begin_anchor annotation)),
                 (''end'', JInt (ann_end_anchor annotation))])];
          cutout_target = JDict
            [(''source'', JStr (textrepo_base_url @ ''/view/versions/''
                                @ ann_segmented_version_id annotation @ ''/segments/''
                                @ ''index/'' @ str_int (ann_begin_anchor annotation)
                                @ ''/'' @ str_int (ann_end_anchor annotation))),
             (''type'', JStr ''Text'')];
          fragment_selector_target = JDict
            [(''source'', JStr (textrepo_base_url @ ''/rest/versions/''
                                @ ann_txt_version_id annotation @ ''/contents'')),
             (''type'', JStr ''Text''),
             (''selector'', JDict
                [(''type'', JStr ''FragmentSelector''),
                 (''conformsTo'', JStr ''http://tools.ietf.org/rfc/rfc5147''),
                 (''value'', JStr (''char='' @ str_int (ann_char_start annotation)
                                   @ '','' @ str_int (ann_char_end annotation)))])]
      in [text_anchor_selector_target, cutout_target])"

text \<open>
  \<^verbatim>\<open>svg_selector(coords_list)\<close>: the loop keeps \<open>(path_defs, height, width)\<close>;
  \<^verbatim>\<open>max([...])\<close> of a polygon without points raises.
\<close>

fun svg_selector_loop ::
  "(int \<times> int) list list \<Rightarrow> string list \<times> int \<times> int \<Rightarrow> py_error + (string list \<times> int \<times> int)" where
  "svg_selector_loop [] (path_defs, height, width) = Inr (path_defs, height, width)"
| "svg_selector_loop (coords # rest) (path_defs, height, width) =
     and_then (py_max (map snd coords)) (\<lambda>max_y.
     and_then (py_max (map fst coords)) (\<lambda>max_x.
       let height' = max height max_y;
           width' = max width max_x;
           path_def = py_join '' '' (map (\<lambda>c. ''L'' @ str_int (fst c) @ '' '' @ str_int (snd c)) coords) @ '' Z'';
           path_def' = ''M'' @ drop 1 path_def
       in svg_selector_loop rest (path_defs @ [path_def'], height', width')))"

definition svg_selector :: "(int \<times> int) list list \<Rightarrow> py_error + json" where
  "svg_selector coords_list =
     and_then (svg_selector_loop coords_list ([], 0, 0)) (\<lambda>(path_defs, height, width).
       let path = ''<path d='' @ [DQ] @ py_join '' '' path_defs @ [DQ] @ ''/>''
       in Inr (JDict
            [(''type'', JStr ''SvgSelector''),
             (''value'', JStr (''<svg height='' @ [DQ] @ str_int height @ [DQ] @ '' width='' @ [DQ]
                               @ str_int width @ [DQ] @ ''>'' @ path @ ''</svg>''))]))"

definition image_target_wth_svg_selector :: "string \<Rightarrow> (int \<times> int) list list \<Rightarrow> py_error + json" where
  "image_target_wth_svg_selector iiif_url coords_list =
     and_then (svg_selector coords_list) (\<lambda>selector.
       Inr (JDict [(''source'', JStr iiif_url), (''type'', JStr ''Image''), (''selector'', selector)]))"

definition box_xywh :: "Coords \<Rightarrow> string" where
  "box_xywh c = str_int (box_x c) @ '','' @ str_int (box_y c) @ '','' @ str_int (box_w c) @ '','' @ str_int (box_h c)"

definition make_image_targets :: "(string \<rightharpoonup> string) \<Rightarrow> string \<Rightarrow> Coords list \<Rightarrow> py_error + json list" where
  "make_image_targets iiif_base_url_idx page_id coords =
     and_then (get_iiif_base_url iiif_base_url_idx page_id) (\<lambda>iiif_base_url.
       let iiif_url = iiif_base_url @ ''/full/max/0/default.jpg'';
           selectors = map (\<lambda>c. JDict
                              [(''type'', JStr ''FragmentSelector''),
                               (''conformsTo'', JStr ''http://www.w3.org/TR/media-frags/''),
                               (''value'', JStr (''xywh='' @ box_xywh c))]) coords;
           targets = map (\<lambda>c. JDict
                            [(''source'', JStr (iiif_base_url @ ''/'' @ box_xywh c @ ''/max/0/default.jpg'')),
                             (''type'', JStr ''Image'')]) coords
       in and_then (image_target_wth_svg_selector iiif_url (map points coords)) (\<lambda>svg_target.
          and_then (json_get svg_target ''selector'') (\<lambda>svg_sel.
            Inr (targets @
                 [JDict [(''source'', JStr iiif_url),
                         (''type'', JStr ''Image''),
                         (''selector'', JList (selectors @ [svg_sel]))]]))))"

definition canvas_target :: "string \<Rightarrow> string list \<Rightarrow> (int \<times> int) list list \<Rightarrow> py_error + json" where
  "canvas_target canvas_url xywh_list coords_list =
     (let selectors = map (\<lambda>xywh. JDict
                             [(''@context'', JStr ''http://iiif.io/api/annex/openannotation/context.json''),
                              (''type'', JStr ''iiif:ImageApiSelector''),
                              (''region'', JStr xywh)]) xywh_list
      in and_then (if coords_list \<noteq> []
                   then and_then (svg_selector coords_list) (\<lambda>sel. Inr (selectors @ [sel]))
                   else Inr selectors) (\<lambda>selectors'.
           Inr (JDict [(''@context'', JStr ''https://brambg.github.io/ns/republic.jsonld''),
                       (''source'', JStr canvas_url),
                       (''type'', JStr ''Canvas''),
                       (''selector'', JList selectors')])))"

definition to_xywh :: "Coords \<Rightarrow> string" where
  "to_xywh coords = str_int (box_x coords) @ '','' @ str_int (box_y coords) @ '','' @ str_int (box_w coords) @ '','' @ str_int (box_h coords)"

definition annotation_targets :: "(string \<rightharpoonup> string) \<Rightarrow> Annotation \<Rightarrow> py_error + json list" where
  "annotation_targets iiif_base_url_idx annotation =
     (let page_id = ann_page_id annotation
      in and_then
           (case md_coords (ann_metadata annotation) of
              None \<Rightarrow> Inr []
            | Some cv \<Rightarrow>
                (let coords = (case cv of OneCoords c \<Rightarrow> [c] | ManyCoords cs \<Rightarrow> cs)
                 in and_then (make_image_targets iiif_base_url_idx page_id coords) (\<lambda>image_targets.
                    and_then (canvas_target (''urn:globalise:canvas:'' @ page_id)
                                (map to_xywh coords) (map points coords)) (\<lambda>canvas.
                      Inr (image_targets @ [canvas])))))
           (\<lambda>targets.
              and_then
                (if ann_type annotation = ''px:Page''
                 then and_then (get_iiif_base_url iiif_base_url_idx page_id) (\<lambda>iiif_base_url.
                        Inr [JDict [(''source'', JStr (iiif_base_url @ ''/full/max/0/default.jpg'')),
                                    (''type'', JStr ''Image'')]])
                 else Inr [])
                (\<lambda>page_targets.
                   Inr (targets @ page_targets
                        @ make_text_targets ''https://globalise.tt.di.huc.knaw.nl/textrepo'' annotation))))"

section \<open>The word loop of the offset index builder (globalise-extract-text.py)\<close>

text \<open>
  \<^verbatim>\<open>gt.DisplayWord\<close> and the PageXML words it joins come from \<^verbatim>\<open>globalise_tools.tools\<close>; the
  records hold the attributes the loop reads.
\<close>

record PXWord =
  pxw_id :: string
  pxw_page_id :: string
  pxw_coords :: Coords

record DisplayWord =
  dw_id :: string
  dw_px_words :: "PXWord list"
  dw_text :: string

definition make_word_id :: "string \<Rightarrow> DisplayWord \<Rightarrow> string" where
  "make_word_id prefix w = prefix @ '':word:'' @ py_join '':'' (map pxw_id (dw_px_words w))"

text \<open>
  \<^verbatim>\<open>
  def word_annotation(id_prefix, stripped, text, w):
      return Annotation(
          type="tt:Word",
          id=make_word_id(id_prefix, w),
          page_id=w.px_words[0].page_id,
          offset=len(text),
          length=len(stripped),
          metadata={"text": stripped, "coords": [pxw.coords for pxw in w.px_words]})
  \<close>
  \<^verbatim>\<open>w.px_words[0]\<close> raises on a display word without PageXML words.
\<close>

definition word_annotation :: "string \<Rightarrow> string \<Rightarrow> string \<Rightarrow> DisplayWord \<Rightarrow> py_error + Annotation" where
  "word_annotation id_prefix stripped text w =
     (case dw_px_words w of
        [] \<Rightarrow> Inl IndexError
      | first_px_word # _ \<Rightarrow>
          Inr \<lparr>ann_type = ''tt:Word'',
               ann_id = make_word_id id_prefix w,
               ann_page_id = pxw_page_id first_px_word,
               ann_offset = int (length text),
               ann_length = int (length stripped),
               ann_segmented_version_id = '''',
               ann_begin_anchor = 0,
               ann_end_anchor = 0,
               ann_txt_version_id = '''',
               ann_char_start = 0,
               ann_char_end = 0,
               ann_metadata =
                 \<lparr>md_text = Some stripped,
                  md_coords = Some (ManyCoords (map pxw_coords (dw_px_words w))),
                  md_other = []\<rparr>\<rparr>)"

text \<open>
  In \<^verbatim>\<open>process_pagexml\<close>:
  \<^verbatim>\<open>
  text = ''
  display_word_range_idx = {}
  for w in display_words:
      stripped = w.text.strip()
      wa = word_annotation(id_prefix, stripped, text, w)
      annotations.append(wa)
      display_word_range_idx[w.id] = (wa.offset, wa.offset + wa.length)
      text += w.text
  \<close>
  The loop state is \<open>(annotations, display_word_range_idx, text)\<close>.
\<close>

fun process_pagexml_words ::
  "string \<Rightarrow> DisplayWord list \<Rightarrow> Annotation list \<times> (string \<rightharpoonup> int \<times> int) \<times> string
     \<Rightarrow> py_error + (Annotation list \<times> (string \<rightharpoonup> int \<times> int) \<times> string)" where
  "process_pagexml_words id_prefix [] (annotations, display_word_range_idx, text) =
     Inr (annotations, display_word_range_idx, text)"
| "process_pagexml_words id_prefix (w # rest) (annotations, display_word_range_idx, text) =
     (let stripped = strip (dw_text w)
      in and_then (word_annotation id_prefix stripped text w) (\<lambda>wa.
           process_pagexml_words id_prefix rest
             (annotations @ [wa],
              display_word_range_idx(dw_id w \<mapsto> (ann_offset wa, ann_offset wa + ann_length wa)),
              text @ dw_text w)))"

definition process_pagexml_word_loop ::
  "string \<Rightarrow> DisplayWord list \<Rightarrow> py_error + (Annotation list \<times> (string \<rightharpoonup> int \<times> int) \<times> string)" where
  "process_pagexml_word_loop id_prefix display_words =
     process_pagexml_words id_prefix display_words ([], Map.empty, '''')"

section \<open>XMI to web annotations (gt-xmi-to-wa.py)\<close>

text \<open>
  A feature structure of the cassis library, with the features \<^verbatim>\<open>_as_web_annotation\<close> reads:
  \<^verbatim>\<open>xmiID\<close>, \<^verbatim>\<open>begin\<close>, \<^verbatim>\<open>end\<close> (either may be \<^verbatim>\<open>None\<close>) and \<^verbatim>\<open>target\<close>.
\<close>

datatype feature_structure =
  FeatureStructure (xmiID: int) (fs_begin: "int option") (fs_end: "int option")
    (fs_target: "feature_structure option")

text \<open>
  One entry of \<^verbatim>\<open>text_intervals\<close>: \<open>(begin, end, data)\<close>, where \<open>data\<close> holds the source
  coordinates.
\<close>

record iv_data =
  iiif_base_uri :: string
  canvas_id :: string
  coords :: "(int \<times> int) list"

type_synonym interval = "int \<times> int \<times> iv_data"

record document_record =
  plain_text_md5 :: string
  plain_text_source :: string
  text_intervals :: "interval list"

datatype log_entry =
    LogInfo string
  | LogWarning string
  | LogError string

text \<open>
  The intervaltree library: \<^verbatim>\<open>IntervalTree(intervals)\<close> keeps the set of the intervals and
  refuses one whose begin is not below its end; \<^verbatim>\<open>tree[b:e]\<close> is the set of stored
  intervals that overlap \<open>[b, e)\<close>, empty when \<open>b \<ge> e\<close>. \<^verbatim>\<open>sorted(list(s))\<close> orders the
  intervals of the set \<open>s\<close> by begin, then end; two intervals that agree on both and carry
  different dictionaries compare as equal, and since the sort is stable they stay in the order
  in which Python iterates over the set. The contents of the set do not fix that order, so it is
  an argument: \<open>set_order ivs iv\<close> is the position of \<open>iv\<close> in the iteration over the set that
  holds \<open>ivs\<close>. Whatever \<open>set_order\<close> is, the result lists the same intervals, ascending in
  begin and end.
\<close>

definition IntervalTree :: "interval list \<Rightarrow> py_error + interval list" where
  "IntervalTree intervals =
     (if list_ex (\<lambda>iv. fst (snd iv) \<le> fst iv) intervals then Inl ValueError
      else Inr (remdups intervals))"

definition itree_overlap :: "interval list \<Rightarrow> int \<Rightarrow> int \<Rightarrow> interval list" where
  "itree_overlap itree b e =
     (if e \<le> b then [] else filter (\<lambda>iv. fst iv < e \<and> b < fst (snd iv)) itree)"

definition sorted_intervals :: "(interval list \<Rightarrow> interval \<Rightarrow> nat) \<Rightarrow> interval list \<Rightarrow> interval list" where
  "sorted_intervals set_order ivs = sort_key (\<lambda>iv. (fst iv, fst (snd iv), set_order ivs iv)) ivs"

record XMIProcessor =
  xp_text :: string
  xp_text_len :: int
  xp_plain_text_source :: string
  xp_itree :: "interval list"

definition max_fix_len :: int where
  "max_fix_len = 20"

text \<open>
  \<^verbatim>\<open>XMIProcessor.__init__\<close>. The text is the sofa string of the CAS loaded from
  \<^verbatim>\<open>xmi_path\<close>; \<^verbatim>\<open>hashlib.md5(...).hexdigest()\<close> is the argument \<open>md5\<close>;
  \<^verbatim>\<open>document_data.values()\<close> are the records of the dictionary in its order.
  \<^verbatim>\<open>
  md5 = hashlib.md5(self.text.encode()).hexdigest()
  data = [d for d in document_data.values() if d['plain_text_md5'] == md5]
  if data:
      self.plain_text_source = data[0]['plain_text_source']
      self.itree = IntervalTree([Interval(*iv) for iv in data[0]['text_intervals']])
  else:
      logger.error(f"No document data found for {xmi_path}, using placeholder target source")
      self.plain_text_source = "urn:placeholder"
      self.itree = IntervalTree()
  \<close>
\<close>

definition XMIProcessor_init ::
  "(string \<Rightarrow> string) \<Rightarrow> (string \<times> document_record) list \<Rightarrow> string \<Rightarrow> string
     \<Rightarrow> py_error + (XMIProcessor \<times> log_entry list)" where
  "XMIProcessor_init md5 document_data xmi_path text =
     (let digest = md5 text;
          data = filter (\<lambda>d. plain_text_md5 d = digest) (map snd document_data)
      in case data of
           d # _ \<Rightarrow>
             and_then (IntervalTree (text_intervals d)) (\<lambda>itree.
               Inr (\<lparr>xp_text = text, xp_text_len = int (length text),
                     xp_plain_text_source = plain_text_source d, xp_itree = itree\<rparr>,
                    [LogInfo (''<= '' @ xmi_path)]))
         | [] \<Rightarrow>
             Inr (\<lparr>xp_text = text, xp_text_len = int (length text),
                   xp_plain_text_source = ''urn:placeholder'', xp_itree = []\<rparr>,
                  [LogInfo (''<= '' @ xmi_path),
                   LogError (''No document data found for '' @ xmi_path
                             @ '', using placeholder target source'')]))"

text \<open>
  \<^verbatim>\<open>
  def _get_prefix(self, a) -> str:
      extended_prefix_begin = max(0, a['begin'] - self.max_fix_len * 2)
      extended_prefix = self.text[extended_prefix_begin:a['begin']].lstrip().replace('\n', ' ')
      first_space_index = extended_prefix.rfind(' ', 0, self.max_fix_len)
      if first_space_index != -1:
          prefix = extended_prefix[first_space_index + 1:]
      else:
          prefix = extended_prefix
      return prefix
  \<close>
  A \<^verbatim>\<open>begin\<close> of \<^verbatim>\<open>None\<close> raises at the subtraction.
\<close>

definition get_prefix :: "XMIProcessor \<Rightarrow> feature_structure \<Rightarrow> py_error + string" where
  "get_prefix self a =
     (case fs_begin a of
        None \<Rightarrow> Inl TypeError
      | Some b \<Rightarrow>
          (let extended_prefix_begin = max 0 (b - max_fix_len * 2);
               extended_prefix =
                 replace_newlines (lstrip (py_slice (xp_text self) (Some extended_prefix_begin) (Some b)));
               first_space_index = rfind_space extended_prefix (nat max_fix_len)
           in if first_space_index \<noteq> - 1
              then Inr (py_slice extended_prefix (Some (first_space_index + 1)) None)
              else Inr extended_prefix))"

text \<open>
  \<^verbatim>\<open>
  def _get_suffix(self, a) -> str:
      extended_suffix_end = min(self.text_len, a['end'] + self.max_fix_len * 2)
      extended_suffix = self.text[a['end']:extended_suffix_end].rstrip().replace('\n', ' ')
      last_space_index = extended_suffix.rfind(' ', 0, self.max_fix_len)
      if last_space_index != -1:
          suffix = extended_suffix[:last_space_index]
      else:
          suffix = extended_suffix
      return suffix
  \<close>
\<close>

definition get_suffix :: "XMIProcessor \<Rightarrow> feature_structure \<Rightarrow> py_error + string" where
  "get_suffix self a =
     (case fs_end a of
        None \<Rightarrow> Inl TypeError
      | Some e \<Rightarrow>
          (let extended_suffix_end = min (xp_text_len self) (e + max_fix_len * 2);
               extended_suffix =
                 replace_newlines (rstrip (py_slice (xp_text self) (Some e) (Some extended_suffix_end)));
               last_space_index = rfind_space extended_suffix (nat max_fix_len)
           in if last_space_index \<noteq> - 1
              then Inr (py_slice extended_suffix None (Some last_space_index))
              else Inr extended_suffix))"

text \<open>\<^verbatim>\<open>FeatureStructure.get_covered_text()\<close> of cassis: the sofa string from begin to end.\<close>

definition get_covered_text :: "XMIProcessor \<Rightarrow> feature_structure \<Rightarrow> string" where
  "get_covered_text self a = py_slice (xp_text self) (fs_begin a) (fs_end a)"

definition xmi_to_xywh :: "(int \<times> int) list \<Rightarrow> py_error + string" where
  "xmi_to_xywh cs =
     and_then (py_min (map fst cs)) (\<lambda>min_x.
     and_then (py_min (map snd cs)) (\<lambda>min_y.
     and_then (py_max (map fst cs)) (\<lambda>max_x.
     and_then (py_max (map snd cs)) (\<lambda>max_y.
       let w = max_x - min_x;
           h = max_y - min_y
       in Inr (str_int min_x @ '','' @ str_int min_y @ '','' @ str_int w @ '','' @ str_int h)))))"

definition xmi_image_target :: "string \<Rightarrow> string \<Rightarrow> json" where
  "xmi_image_target base_uri xywh =
     JDict [(''type'', JStr ''Image''),
            (''source'', JStr (base_uri @ ''/'' @ xywh @ ''/max/0/default.jpg''))]"

definition xmi_image_selector_target :: "string \<Rightarrow> string \<Rightarrow> json" where
  "xmi_image_selector_target base_uri xywh =
     JDict [(''type'', JStr ''Image''),
            (''source'', JStr (base_uri @ ''/full/max/0/default.jpg'')),
            (''selector'', JDict
               [(''type'', JStr ''FragmentSelector''),
                (''conformsTo'', JStr ''http://www.w3.org/TR/media-frags/''),
                (''value'', JStr (''xywh='' @ xywh))])]"

definition xmi_canvas_target :: "string \<Rightarrow> string \<Rightarrow> json" where
  "xmi_canvas_target canvas_source xywh =
     JDict [(''@context'', JStr ''https://knaw-huc.github.io/ns/huc-di-tt.jsonld''),
            (''type'', JStr ''Canvas''),
            (''source'', JStr canvas_source),
            (''selector'', JDict
               [(''@context'', JStr ''http://iiif.io/api/annex/openannotation/context.json''),
                (''type'', JStr ''iiif:ImageApiSelector''),
                (''region'', JStr xywh)])]"

text \<open>The loop over the sorted overlapping intervals, three targets for each.\<close>

fun interval_targets :: "interval list \<Rightarrow> py_error + json list" where
  "interval_targets [] = Inr []"
| "interval_targets (iv # rest) =
     (let iv_data = snd (snd iv)
      in and_then (xmi_to_xywh (coords iv_data)) (\<lambda>xywh.
         and_then (interval_targets rest) (\<lambda>more.
           Inr ([xmi_image_target (iiif_base_uri iv_data) xywh,
                 xmi_image_selector_target (iiif_base_uri iv_data) xywh,
                 xmi_canvas_target (canvas_id iv_data) xywh] @ more))))"

text \<open>
  \<^verbatim>\<open>XMIProcessor._as_web_annotation(self, feature_structure, body)\<close>. It opens with
  \<^verbatim>\<open>
  anno_id = f"urn:globalise:annotation:{feature_structure.xmiID}"
  if not feature_structure['begin']:
      feature_structure = feature_structure['target']
  \<close>
  where \<^verbatim>\<open>not x\<close> holds for \<^verbatim>\<open>None\<close> and for \<open>0\<close>. A missing target fails at the next
  attribute access. \<^verbatim>\<open>datetime.today().isoformat()\<close> is the argument \<open>generated\<close>, and
  the iteration order of the set of overlapping intervals is the argument \<open>set_order\<close>.
  Once \<^verbatim>\<open>_get_prefix\<close> and \<^verbatim>\<open>_get_suffix\<close> have returned, begin and end are integers.
\<close>

definition as_web_annotation ::
  "XMIProcessor \<Rightarrow> (interval list \<Rightarrow> interval \<Rightarrow> nat) \<Rightarrow> string \<Rightarrow> feature_structure \<Rightarrow> json
     \<Rightarrow> py_error + (json \<times> log_entry list)" where
  "as_web_annotation self set_order generated feature_structure body =
     (let anno_id = ''urn:globalise:annotation:'' @ str_int (xmiID feature_structure);
          replaced = (if fs_begin feature_structure = None \<or> fs_begin feature_structure = Some 0
                      then fs_target feature_structure
                      else Some feature_structure)
      in case replaced of
           None \<Rightarrow> Inl AttributeError
         | Some fs \<Rightarrow>
             (let exact = get_covered_text self fs
              in and_then (get_prefix self fs) (\<lambda>prefix.
                 and_then (get_suffix self fs) (\<lambda>suffix.
                   let text_quote_selector = JDict
                         ([(''type'', JStr ''TextQuoteSelector''), (''exact'', JStr exact)]
                          @ (if prefix \<noteq> [] then [(''prefix'', JStr prefix)] else [])
                          @ (if suffix \<noteq> [] then [(''suffix'', JStr suffix)] else []))
                   in case (fs_begin fs, fs_end fs) of
                        (Some feature_structure_begin, Some feature_structure_end) \<Rightarrow>
                          (let targets =
                                 [JDict [(''source'', JStr (xp_plain_text_source self)),
                                         (''selector'', JList
                                            [text_quote_selector,
                                             JDict [(''type'', JStr ''TextPositionSelector''),
                                                    (''start'', JInt feature_structure_begin),
                                                    (''end'', JInt feature_structure_end)]])]];
                               overlapping_intervals =
                                 itree_overlap (xp_itree self) feature_structure_begin feature_structure_end;
                               log = (if 1 < length overlapping_intervals
                                      then [LogWarning ''>1 overlapping intervals!''] else [])
                           in and_then (interval_targets (sorted_intervals set_order overlapping_intervals)) (\<lambda>more.
                                Inr (JDict
                                       [(''@context'', JStr ''http://www.w3.org/ns/anno.jsonld''),
                                        (''id'', JStr anno_id),
                                        (''type'', JStr ''Annotation''),
                                        (''generated'', JStr generated),
                                        (''body'', body),
                                        (''target'', JList (targets @ more))],
                                     log)))
                      | _ \<Rightarrow> Inl TypeError))))"

section \<open>Vocabulary and sample inputs for the statements\<close>

text \<open>
  \<open>last_match P vs k d r\<close>: counting the positions of \<open>vs\<close> from \<open>k\<close>, \<open>r\<close> is the position of
  the last element of \<open>vs\<close> that satisfies \<open>P\<close>, and \<open>r\<close> is the default \<open>d\<close> when no element
  does.
\<close>

definition last_match :: "(GTToken \<Rightarrow> bool) \<Rightarrow> GTToken list \<Rightarrow> nat \<Rightarrow> nat \<Rightarrow> nat \<Rightarrow> bool" where
  "last_match P vs k d r =
     (if \<exists>j<length vs. P (vs ! j)
      then k \<le> r \<and> r - k < length vs \<and> P (vs ! (r - k)) \<and> (\<forall>j<length vs. P (vs ! j) \<longrightarrow> k + j \<le> r)
      else r = d)"

text \<open>Three real tokens whose offsets are not in ascending order.\<close>

definition unordered_tokens :: "GTToken list" where
  "unordered_tokens =
     [\<lparr>tok_text = ''a'', tok_text_with_ws = ''a '', tok_offset = 0\<rparr>,
      \<lparr>tok_text = ''b'', tok_text_with_ws = ''b '', tok_offset = 5\<rparr>,
      \<lparr>tok_text = ''c'', tok_text_with_ws = ''c '', tok_offset = 2\<rparr>]"

text \<open>Two adjacent pages of ten characters each.\<close>

definition two_page_ranges :: "(string \<times> int \<times> int) list" where
  "two_page_ranges = [(''page-A'', 0, 10), (''page-B'', 10, 20)]"

text \<open>A single real token, \<^verbatim>\<open>"Go"\<close> at offset 0.\<close>

definition go_token :: GTToken where
  "go_token = \<lparr>tok_text = ''Go'', tok_text_with_ws = ''Go '', tok_offset = 0\<rparr>"

text \<open>
  A page of 3000 characters and its first text region of 1500 characters, both starting at
  offset 0 of the same page, in the order \<^verbatim>\<open>process_pagexml\<close> appends them (page first).
\<close>

definition sample_annotation :: "string \<Rightarrow> string \<Rightarrow> string \<Rightarrow> int \<Rightarrow> int \<Rightarrow> Annotation" where
  "sample_annotation ty ident page off len =
     \<lparr>ann_type = ty, ann_id = ident, ann_page_id = page, ann_offset = off, ann_length = len,
      ann_segmented_version_id = ''seg-v1'', ann_begin_anchor = 0, ann_end_anchor = 0,
      ann_txt_version_id = ''txt-v1'', ann_char_start = 0, ann_char_end = 0,
      ann_metadata = \<lparr>md_text = None, md_coords = None, md_other = []\<rparr>\<rparr>"

definition sample_page :: Annotation where
  "sample_page = sample_annotation ''px:Page'' ''urn:globalise:scan_0001'' ''scan_0001'' 0 3000"

definition sample_region :: Annotation where
  "sample_region =
     sample_annotation ''px:TextRegion'' ''urn:globalise:scan_0001:textregion:r1'' ''scan_0001'' 0 1500"

text \<open>A token annotation after anchor resolution, with both text-repository version ids set.\<close>

definition sample_token :: Annotation where
  "sample_token =
     (sample_annotation ''tt:Token'' ''urn:globalise:doc:token:4'' ''scan_0001'' 17 5)
       \<lparr>ann_begin_anchor := 4, ann_end_anchor := 4\<rparr>"

text \<open>
  A tokenizer is well behaved on a paragraph when the character offsets it reports, in the
  order of the tokens, are strictly increasing and lie inside the paragraph.
\<close>

definition ascending_inside :: "string \<Rightarrow> spacy_token list list \<Rightarrow> bool" where
  "ascending_inside par sents =
     (sorted_wrt (<) (map sp_idx (concat sents))
      \<and> list_all (\<lambda>t. 0 \<le> sp_idx t \<and> sp_idx t < int (length par)) (concat sents))"

text \<open>A tokenizer stand-in that knows the paragraph of scenario 2 and nothing else.\<close>

definition go_home_nlp :: "string \<Rightarrow> spacy_token list list" where
  "go_home_nlp par =
     (if par = ''Go home.'' @ [NL]
      then [[\<lparr>sp_text = ''Go'', sp_text_with_ws = ''Go '', sp_idx = 0\<rparr>,
             \<lparr>sp_text = ''home'', sp_text_with_ws = ''home'', sp_idx = 3\<rparr>,
             \<lparr>sp_text = ''.'', sp_text_with_ws = ''.'', sp_idx = 7\<rparr>,
             \<lparr>sp_text = [NL], sp_text_with_ws = [NL], sp_idx = 8\<rparr>]]
      else [])"

text \<open>A string begins with whitespace.\<close>

definition starts_with_space :: "string \<Rightarrow> bool" where
  "starts_with_space s = (case s of [] \<Rightarrow> False | c # _ \<Rightarrow> is_space c)"

text \<open>A display word made of one PageXML word, with the given text.\<close>

definition sample_word :: "string \<Rightarrow> string \<Rightarrow> DisplayWord" where
  "sample_word ident txt =
     \<lparr>dw_id = ident,
      dw_px_words =
        [\<lparr>pxw_id = ident, pxw_page_id = ''scan_0001'',
          pxw_coords = \<lparr>points = [(0, 0), (10, 0), (10, 5), (0, 5)],
                        box_x = 0, box_y = 0, box_w = 10, box_h = 5\<rparr>\<rparr>],
      dw_text = txt\<rparr>"

text \<open>
  An XMI processor over the text \<^verbatim>\<open>"Hello brave new world"\<close> with one provenance interval
  that covers the characters 6 to 11, and two feature structures: one that begins at offset 0
  and points to a target at 6 to 11, and the same without a target.
\<close>

definition sample_processor :: XMIProcessor where
  "sample_processor =
     \<lparr>xp_text = ''Hello brave new world'', xp_text_len = 21,
      xp_plain_text_source = ''urn:text:1'',
      xp_itree = [(6, 11, \<lparr>iiif_base_uri = ''https://iiif.example/img1'', canvas_id = ''urn:canvas:1'',
                           coords = [(0, 0), (10, 0), (10, 5), (0, 5)]\<rparr>)]\<rparr>"

definition sample_target_fs :: feature_structure where
  "sample_target_fs = FeatureStructure 8 (Some 6) (Some 11) None"

definition sample_fs_at_zero :: feature_structure where
  "sample_fs_at_zero = FeatureStructure 7 (Some 0) (Some 5) (Some sample_target_fs)"

definition sample_fs_at_zero_no_target :: feature_structure where
  "sample_fs_at_zero_no_target = FeatureStructure 7 (Some 0) (Some 5) None"

text \<open>
  An iteration order that puts the intervals of canvas 2 first, and two intervals with the same
  begin and end, stored with canvas 1 before canvas 2.
\<close>

definition sample_set_order :: "interval list \<Rightarrow> interval \<Rightarrow> nat" where
  "sample_set_order ivs iv = (if canvas_id (snd (snd iv)) = ''urn:canvas:2'' then 0 else 1)"

definition tied_intervals :: "interval list" where
  "tied_intervals =
     [(6, 11, \<lparr>iiif_base_uri = ''https://iiif.example/img1'', canvas_id = ''urn:canvas:1'',
                coords = [(0, 0), (10, 0), (10, 5), (0, 5)]\<rparr>),
      (6, 11, \<lparr>iiif_base_uri = ''https://iiif.example/img2'', canvas_id = ''urn:canvas:2'',
                coords = [(0, 0), (20, 0), (20, 8), (0, 8)]\<rparr>)]"

text \<open>A digest function and a document-data table none of whose checksums it produces.\<close>

definition sample_md5 :: "string \<Rightarrow> string" where
  "sample_md5 s = ''d41d8cd98f00b204e9800998ecf8427e''"

definition sample_document_data :: "(string \<times> document_record) list" where
  "sample_document_data =
     [(''doc-1'', \<lparr>plain_text_md5 = ''0cc175b9c0f1b6a831c399e269772661'',
                   plain_text_source = ''urn:text:1'',
                   text_intervals = [(0, 5, \<lparr>iiif_base_uri = ''https://iiif.example/img1'',
                                              canvas_id = ''urn:canvas:1'',
                                              coords = [(0, 0), (10, 0), (10, 5), (0, 5)]\<rparr>)]\<rparr>)]"

section \<open>Anchor resolution: what the scan returns\<close>

lemma visited_Nil: "visited [] e = []" by (simp add: visited_def)

lemma visited_Cons:
  "visited (t # ts) e = (if is_real t \<and> e \<le> tok_offset t then [t] else t # visited ts e)"
  by (simp add: visited_def)

lemma last_match_Nil: "last_match P [] k d r = (r = d)" by (simp add: last_match_def)

lemma last_match_single: "last_match P [t] k d r = (r = (if P t then k else d))"
  by (auto simp: last_match_def)

lemma last_match_Cons:
  assumes "last_match P vs (Suc k) (if P t then k else d) r"
  shows "last_match P (t # vs) k d r"
proof (cases "\<exists>j<length vs. P (vs ! j)")
  case True
  with assms have r: "Suc k \<le> r" "r - Suc k < length vs" "P (vs ! (r - Suc k))"
    and mx: "\<forall>j<length vs. P (vs ! j) \<longrightarrow> Suc k + j \<le> r"
    by (simp_all add: last_match_def)
  from r have rk: "r - k = Suc (r - Suc k)" by arith
  from True obtain j where "j < length vs" "P (vs ! j)" by blast
  then have ex: "\<exists>j<length (t # vs). P ((t # vs) ! j)"
    by (intro exI [of _ "Suc j"]) simp
  have "\<forall>j<length (t # vs). P ((t # vs) ! j) \<longrightarrow> k + j \<le> r"
  proof (intro allI impI)
    fix j assume "j < length (t # vs)" "P ((t # vs) ! j)"
    then show "k + j \<le> r" using r(1) mx by (cases j) auto
  qed
  with ex r rk show ?thesis by (simp add: last_match_def)
next
  case False
  with assms have r: "r = (if P t then k else d)" by (simp add: last_match_def)
  show ?thesis
  proof (cases "P t")
    case True
    have ex: "\<exists>j<length (t # vs). P ((t # vs) ! j)"
      using True by (intro exI [of _ 0]) simp
    have "\<forall>j<length (t # vs). P ((t # vs) ! j) \<longrightarrow> k + j \<le> r"
    proof (intro allI impI)
      fix j assume "j < length (t # vs)" "P ((t # vs) ! j)"
      then show "k + j \<le> r" using r True False by (cases j) auto
    qed
    with ex r True show ?thesis by (simp add: last_match_def)
  next
    case Pt: False
    have ne: "\<not> (\<exists>j<length (t # vs). P ((t # vs) ! j))"
    proof
      assume "\<exists>j<length (t # vs). P ((t # vs) ! j)"
      then obtain j where "j < length (t # vs)" "P ((t # vs) ! j)" by blast
      then show False using Pt False by (cases j) auto
    qed
    show ?thesis unfolding last_match_def if_not_P [OF ne] using r Pt by simp
  qed
qed

lemma loop_char:
  "segment_range_loop (enumerate k ts) b e (bi, ei) = (bi', ei') \<Longrightarrow>
     last_match (\<lambda>t. is_real t \<and> tok_offset t \<le> b) (visited ts e) k bi bi' \<and>
     last_match (\<lambda>t. is_real t \<and> tok_offset t < e) (visited ts e) k ei ei'"
proof (induction ts arbitrary: k bi ei)
  case Nil
  then show ?case by (simp add: visited_Nil last_match_Nil)
next
  case (Cons t ts)
  show ?case
  proof (cases "is_real t \<and> e \<le> tok_offset t")
    case True
    with Cons.prems show ?thesis
      by (auto simp: visited_Cons last_match_single is_real_def Let_def split: if_splits)
  next
    case False
    let ?bi = "if is_real t \<and> tok_offset t \<le> b then k else bi"
    let ?ei = "if is_real t \<and> tok_offset t < e then k else ei"
    from False Cons.prems
    have "segment_range_loop (enumerate (Suc k) ts) b e (?bi, ?ei) = (bi', ei')"
      by (auto simp: is_real_def Let_def split: if_splits)
    moreover from False have "visited (t # ts) e = t # visited ts e"
      by (auto simp: visited_Cons)
    ultimately show ?thesis
      using Cons.IH [of "Suc k" ?bi ?ei] by (simp add: last_match_Cons)
  qed
qed


lemma last_match_0:
  "last_match P vs 0 0 r =
     (if \<exists>j<length vs. P (vs ! j)
      then r < length vs \<and> P (vs ! r) \<and> (\<forall>j<length vs. P (vs ! j) \<longrightarrow> j \<le> r)
      else r = 0)"
  unfolding last_match_def by (simp only: le0 diff_zero add_0 simp_thms)

lemma last_match_unique:
  "last_match P vs k d r \<Longrightarrow> last_match P vs k d r' \<Longrightarrow> r = r'"
proof (cases "\<exists>j<length vs. P (vs ! j)")
  case True
  assume a: "last_match P vs k d r" and b: "last_match P vs k d r'"
  from a True have "k + (r' - k) \<le> r" if "r' - k < length vs" "P (vs ! (r' - k))"
    using that by (simp add: last_match_def)
  moreover from b True have "k + (r - k) \<le> r'" if "r - k < length vs" "P (vs ! (r - k))"
    using that by (simp add: last_match_def)
  moreover from a True have "k \<le> r" "r - k < length vs" "P (vs ! (r - k))"
    by (simp_all add: last_match_def)
  moreover from b True have "k \<le> r'" "r' - k < length vs" "P (vs ! (r' - k))"
    by (simp_all add: last_match_def)
  ultimately show ?thesis by simp
next
  case False
  assume "last_match P vs k d r" "last_match P vs k d r'"
  with False show ?thesis by (simp add: last_match_def)
qed

lemma visited_prefix: "visited tokens e = take (length (visited tokens e)) tokens"
  by (simp add: visited_def min_def)

lemma visited_eq_Nil: "(visited tokens e = []) = (tokens = [])"
  by (cases tokens) (simp_all add: visited_Nil visited_Cons)

lemma visited_idem: "visited (visited tokens e) e = visited tokens e"
  by (induction tokens) (simp_all add: visited_Nil visited_Cons)

lemma visited_no_early_stop:
  "Suc j < length (visited tokens e) \<Longrightarrow>
     \<not> (is_real (visited tokens e ! j) \<and> e \<le> tok_offset (visited tokens e ! j))"
proof (induction tokens arbitrary: j)
  case Nil
  then show ?case by (simp add: visited_Nil)
next
  case (Cons t ts)
  then show ?case
    by (cases j) (auto simp: visited_Cons split: if_splits)
qed

lemma visited_stops:
  "length (visited tokens e) < length tokens \<Longrightarrow>
     is_real (last (visited tokens e)) \<and> e \<le> tok_offset (last (visited tokens e))"
proof (induction tokens)
  case Nil
  then show ?case by simp
next
  case (Cons t ts)
  then show ?case
    by (auto simp: visited_Cons visited_eq_Nil split: if_splits)
qed

lemma segment_range_visited: "segment_range (visited tokens e) b e = segment_range tokens b e"
proof -
  obtain r s where rs: "segment_range tokens b e = (r, s)" by (cases "segment_range tokens b e")
  obtain r' s' where rs': "segment_range (visited tokens e) b e = (r', s')"
    by (cases "segment_range (visited tokens e) b e")
  from rs have "last_match (\<lambda>t. is_real t \<and> tok_offset t \<le> b) (visited tokens e) 0 0 r"
    "last_match (\<lambda>t. is_real t \<and> tok_offset t < e) (visited tokens e) 0 0 s"
    using loop_char [of 0 tokens b e 0 0 r s] by (simp_all add: segment_range_def)
  moreover from rs' have "last_match (\<lambda>t. is_real t \<and> tok_offset t \<le> b) (visited tokens e) 0 0 r'"
    "last_match (\<lambda>t. is_real t \<and> tok_offset t < e) (visited tokens e) 0 0 s'"
    using loop_char [of 0 "visited tokens e" b e 0 0 r' s'] by (simp_all add: segment_range_def visited_idem)
  ultimately have "r = r'" "s = s'" by (auto dest: last_match_unique)
  with rs rs' show ?thesis by simp
qed

lemma go_home_value: "segment_range go_home_tokens 0 8 = (0, 2)"
  by (simp add: segment_range_def go_home_tokens_def)

lemma real_offsets_Cons:
  "real_offsets (t # ts) = (if is_real t then tok_offset t # real_offsets ts else real_offsets ts)"
  by (simp add: real_offsets_def)

lemma real_offsets_mem:
  "t \<in> set ts \<Longrightarrow> is_real t \<Longrightarrow> tok_offset t \<in> set (real_offsets ts)"
  by (simp add: real_offsets_def)

text \<open>
  When the offsets of the real tokens are strictly increasing and the range is not inverted,
  no token behind the stopping token qualifies, and the two indices are the last qualifying
  tokens of the whole list.
\<close>

lemma real_offsets_nth_less:
  "sorted_wrt (<) (real_offsets ts) \<Longrightarrow> i < j \<Longrightarrow> j < length ts \<Longrightarrow>
     is_real (ts ! i) \<Longrightarrow> is_real (ts ! j) \<Longrightarrow> tok_offset (ts ! i) < tok_offset (ts ! j)"
proof (induction ts arbitrary: i j)
  case Nil
  then show ?case by simp
next
  case (Cons t ts)
  from Cons.prems(2) obtain j' where j: "j = Suc j'" by (cases j) auto
  from Cons.prems(1) have srt: "sorted_wrt (<) (real_offsets ts)"
    by (simp add: real_offsets_Cons split: if_splits)
  show ?case
  proof (cases i)
    case 0
    with Cons.prems have "is_real t" by simp
    with Cons.prems(1) have "\<forall>x\<in>set (real_offsets ts). tok_offset t < x"
      by (simp add: real_offsets_Cons)
    moreover from Cons.prems j have "tok_offset (ts ! j') \<in> set (real_offsets ts)"
      by (intro real_offsets_mem) simp_all
    ultimately show ?thesis using 0 j by simp
  next
    case (Suc i')
    with Cons.prems j Cons.IH [OF srt, of i' j'] show ?thesis by simp
  qed
qed

lemma last_match_take:
  assumes "\<forall>j. n \<le> j \<and> j < length ts \<longrightarrow> \<not> P (ts ! j)"
  shows "last_match P (take n ts) k d r = last_match P ts k d r"
proof (cases "n < length ts")
  case False
  then show ?thesis by simp
next
  case True
  have ex: "(\<exists>j<length (take n ts). P (take n ts ! j)) = (\<exists>j<length ts. P (ts ! j))"
  proof
    assume "\<exists>j<length (take n ts). P (take n ts ! j)"
    then obtain j where "j < n" "j < length ts" "P (ts ! j)" by auto
    then show "\<exists>j<length ts. P (ts ! j)" by blast
  next
    assume "\<exists>j<length ts. P (ts ! j)"
    then obtain j where j: "j < length ts" "P (ts ! j)" by blast
    with assms have "j < n" by (meson not_le)
    with j show "\<exists>j<length (take n ts). P (take n ts ! j)" by auto
  qed
  have in_n: "\<And>j. j < length ts \<Longrightarrow> P (ts ! j) \<Longrightarrow> j < n"
    using assms by (meson not_le)
  show ?thesis
  proof (cases "\<exists>j<length ts. P (ts ! j)")
    case no: False
    show ?thesis unfolding last_match_def ex if_not_P [OF no] ..
  next
    case yes: True
    have "(k \<le> r \<and> r - k < length (take n ts) \<and> P (take n ts ! (r - k))
            \<and> (\<forall>j<length (take n ts). P (take n ts ! j) \<longrightarrow> k + j \<le> r))
        = (k \<le> r \<and> r - k < length ts \<and> P (ts ! (r - k))
            \<and> (\<forall>j<length ts. P (ts ! j) \<longrightarrow> k + j \<le> r))"
      using True in_n by (auto simp: min_def)
    then show ?thesis unfolding last_match_def ex if_P [OF yes] .
  qed
qed

lemma beyond_visited:
  assumes "sorted_wrt (<) (real_offsets tokens)"
    and "length (visited tokens e) \<le> j" and "j < length tokens" and "is_real (tokens ! j)"
  shows "e < tok_offset (tokens ! j)"
proof -
  let ?n = "length (visited tokens e)"
  from assms(2,3) have lt: "?n < length tokens" by simp
  then have st: "is_real (last (visited tokens e))" "e \<le> tok_offset (last (visited tokens e))"
    using visited_stops by blast+
  from lt have "tokens \<noteq> []" by auto
  then have ne: "visited tokens e \<noteq> []" by (simp add: visited_eq_Nil)
  then have n0: "0 < ?n" by simp
  have "last (visited tokens e) = visited tokens e ! (?n - 1)" using ne by (rule last_conv_nth)
  also have "\<dots> = take ?n tokens ! (?n - 1)" using visited_prefix [of tokens e] by simp
  also have "\<dots> = tokens ! (?n - 1)" using n0 by simp
  finally have l: "last (visited tokens e) = tokens ! (?n - 1)" .
  from n0 assms(2) have "?n - 1 < j" by linarith
  from real_offsets_nth_less [OF assms(1) this assms(3)] st(1) assms(4) l
  have "tok_offset (tokens ! (?n - 1)) < tok_offset (tokens ! j)" by simp
  with st(2) l show ?thesis by simp
qed

lemma segment_range_ascending:
  assumes "sorted_wrt (<) (real_offsets tokens)" and "char_range_begin \<le> char_range_end"
    and "segment_range tokens char_range_begin char_range_end = (begin_idx, end_idx)"
  shows "(if \<exists>j<length tokens. is_real (tokens ! j) \<and> tok_offset (tokens ! j) \<le> char_range_begin
          then begin_idx < length tokens
               \<and> is_real (tokens ! begin_idx) \<and> tok_offset (tokens ! begin_idx) \<le> char_range_begin
               \<and> (\<forall>j<length tokens. is_real (tokens ! j) \<and> tok_offset (tokens ! j) \<le> char_range_begin
                      \<longrightarrow> j \<le> begin_idx)
          else begin_idx = 0)
       \<and> (if \<exists>j<length tokens. is_real (tokens ! j) \<and> tok_offset (tokens ! j) < char_range_end
          then end_idx < length tokens
               \<and> is_real (tokens ! end_idx) \<and> tok_offset (tokens ! end_idx) < char_range_end
               \<and> (\<forall>j<length tokens. is_real (tokens ! j) \<and> tok_offset (tokens ! j) < char_range_end
                      \<longrightarrow> j \<le> end_idx)
          else end_idx = 0)"
proof -
  let ?n = "length (visited tokens char_range_end)"
  let ?Pb = "\<lambda>t. is_real t \<and> tok_offset t \<le> char_range_begin"
  let ?Pe = "\<lambda>t. is_real t \<and> tok_offset t < char_range_end"
  from assms(3) have lm:
    "last_match ?Pb (visited tokens char_range_end) 0 0 begin_idx"
    "last_match ?Pe (visited tokens char_range_end) 0 0 end_idx"
    using loop_char [of 0 tokens char_range_begin char_range_end 0 0 begin_idx end_idx]
    by (simp_all add: segment_range_def)
  have nb: "\<forall>j. ?n \<le> j \<and> j < length tokens \<longrightarrow> \<not> ?Pb (tokens ! j)"
    using beyond_visited [OF assms(1)] assms(2) by fastforce
  have ne: "\<forall>j. ?n \<le> j \<and> j < length tokens \<longrightarrow> \<not> ?Pe (tokens ! j)"
    using beyond_visited [OF assms(1)] by fastforce
  have v: "visited tokens char_range_end = take ?n tokens" by (rule visited_prefix)
  from lm(1) have "last_match ?Pb (take ?n tokens) 0 0 begin_idx" using v by simp
  then have b: "last_match ?Pb tokens 0 0 begin_idx" using last_match_take [OF nb] by simp
  from lm(2) have "last_match ?Pe (take ?n tokens) 0 0 end_idx" using v by simp
  then have e: "last_match ?Pe tokens 0 0 end_idx" using last_match_take [OF ne] by simp
  from b e show ?thesis unfolding last_match_0 conj_assoc by (rule conjI)
qed

text \<open>
  Claim C1. \<^verbatim>\<open>segment_range\<close> scans the tokens once, in order, and stops at the first real
  token whose offset reaches or exceeds the end of the range: the visited tokens \<open>vs\<close> are a prefix
  of the list, no visited token but the last is such a stopping token, the last one is when the
  scan did not reach the end of the list, and the tokens after it have no influence on the result.
  Sentinels (offset below 0) are skipped. \<open>begin_idx\<close> is the index of the last visited real token
  whose offset is at most \<open>begin\<close>, \<open>end_idx\<close> the index of the last visited real token whose
  offset is below \<open>end\<close>; each is 0 when there is no such token. When the offsets of the real
  tokens are strictly increasing and \<open>begin \<le> end\<close>, these are the last such tokens of the whole
  list. For the tokens at offsets 0, 3, 7 followed by one sentinel,
  \<^verbatim>\<open>segment_range(tokens, 0, 8)\<close> is \<open>(0, 2)\<close>.
\<close>

theorem segment_range_scan:
  assumes "segment_range tokens char_range_begin char_range_end = (begin_idx, end_idx)"
  shows "(let vs = visited tokens char_range_end in
      vs = take (length vs) tokens
      \<and> (\<forall>j. Suc j < length vs \<longrightarrow> \<not> (is_real (vs ! j) \<and> char_range_end \<le> tok_offset (vs ! j)))
      \<and> (length vs < length tokens \<longrightarrow> is_real (last vs) \<and> char_range_end \<le> tok_offset (last vs))
      \<and> segment_range vs char_range_begin char_range_end = (begin_idx, end_idx)
      \<and> (if \<exists>j<length vs. is_real (vs ! j) \<and> tok_offset (vs ! j) \<le> char_range_begin
         then begin_idx < length vs
              \<and> is_real (vs ! begin_idx) \<and> tok_offset (vs ! begin_idx) \<le> char_range_begin
              \<and> (\<forall>j<length vs. is_real (vs ! j) \<and> tok_offset (vs ! j) \<le> char_range_begin
                     \<longrightarrow> j \<le> begin_idx)
         else begin_idx = 0)
      \<and> (if \<exists>j<length vs. is_real (vs ! j) \<and> tok_offset (vs ! j) < char_range_end
         then end_idx < length vs
              \<and> is_real (vs ! end_idx) \<and> tok_offset (vs ! end_idx) < char_range_end
              \<and> (\<forall>j<length vs. is_real (vs ! j) \<and> tok_offset (vs ! j) < char_range_end
                     \<longrightarrow> j \<le> end_idx)
         else end_idx = 0))
    \<and> (sorted_wrt (<) (real_offsets tokens) \<and> char_range_begin \<le> char_range_end \<longrightarrow>
         (if \<exists>j<length tokens. is_real (tokens ! j) \<and> tok_offset (tokens ! j) \<le> char_range_begin
          then begin_idx < length tokens
               \<and> is_real (tokens ! begin_idx) \<and> tok_offset (tokens ! begin_idx) \<le> char_range_begin
               \<and> (\<forall>j<length tokens. is_real (tokens ! j) \<and> tok_offset (tokens ! j) \<le> char_range_begin
                      \<longrightarrow> j \<le> begin_idx)
          else begin_idx = 0)
         \<and> (if \<exists>j<length tokens. is_real (tokens ! j) \<and> tok_offset (tokens ! j) < char_range_end
            then end_idx < length tokens
                 \<and> is_real (tokens ! end_idx) \<and> tok_offset (tokens ! end_idx) < char_range_end
                 \<and> (\<forall>j<length tokens. is_real (tokens ! j) \<and> tok_offset (tokens ! j) < char_range_end
                        \<longrightarrow> j \<le> end_idx)
            else end_idx = 0))
    \<and> segment_range go_home_tokens 0 8 = (0, 2)"
proof -
  from assms have lm:
    "last_match (\<lambda>t. is_real t \<and> tok_offset t \<le> char_range_begin) (visited tokens char_range_end) 0 0 begin_idx"
    "last_match (\<lambda>t. is_real t \<and> tok_offset t < char_range_end) (visited tokens char_range_end) 0 0 end_idx"
    using loop_char [of 0 tokens char_range_begin char_range_end 0 0 begin_idx end_idx]
    by (simp_all add: segment_range_def)
  have p1: "visited tokens char_range_end = take (length (visited tokens char_range_end)) tokens"
    by (rule visited_prefix)
  have p2: "\<forall>j. Suc j < length (visited tokens char_range_end) \<longrightarrow>
      \<not> (is_real (visited tokens char_range_end ! j) \<and> char_range_end \<le> tok_offset (visited tokens char_range_end ! j))"
    using visited_no_early_stop by blast
  have p3: "length (visited tokens char_range_end) < length tokens \<longrightarrow>
      is_real (last (visited tokens char_range_end)) \<and> char_range_end \<le> tok_offset (last (visited tokens char_range_end))"
    using visited_stops by blast
  have p4: "segment_range (visited tokens char_range_end) char_range_begin char_range_end = (begin_idx, end_idx)"
    using assms by (simp add: segment_range_visited)
  from lm(1) have p5: "(if \<exists>j<length (visited tokens char_range_end). is_real (visited tokens char_range_end ! j) \<and> tok_offset (visited tokens char_range_end ! j) \<le> char_range_begin
         then begin_idx < length (visited tokens char_range_end)
              \<and> is_real (visited tokens char_range_end ! begin_idx) \<and> tok_offset (visited tokens char_range_end ! begin_idx) \<le> char_range_begin
              \<and> (\<forall>j<length (visited tokens char_range_end). is_real (visited tokens char_range_end ! j) \<and> tok_offset (visited tokens char_range_end ! j) \<le> char_range_begin
                     \<longrightarrow> j \<le> begin_idx)
         else begin_idx = 0)"
    unfolding last_match_0 conj_assoc .
  from lm(2) have p6: "(if \<exists>j<length (visited tokens char_range_end). is_real (visited tokens char_range_end ! j) \<and> tok_offset (visited tokens char_range_end ! j) < char_range_end
         then end_idx < length (visited tokens char_range_end)
              \<and> is_real (visited tokens char_range_end ! end_idx) \<and> tok_offset (visited tokens char_range_end ! end_idx) < char_range_end
              \<and> (\<forall>j<length (visited tokens char_range_end). is_real (visited tokens char_range_end ! j) \<and> tok_offset (visited tokens char_range_end ! j) < char_range_end
                     \<longrightarrow> j \<le> end_idx)
         else end_idx = 0)"
    unfolding last_match_0 conj_assoc .
  have p7: "sorted_wrt (<) (real_offsets tokens) \<and> char_range_begin \<le> char_range_end \<longrightarrow>
         (if \<exists>j<length tokens. is_real (tokens ! j) \<and> tok_offset (tokens ! j) \<le> char_range_begin
          then begin_idx < length tokens
               \<and> is_real (tokens ! begin_idx) \<and> tok_offset (tokens ! begin_idx) \<le> char_range_begin
               \<and> (\<forall>j<length tokens. is_real (tokens ! j) \<and> tok_offset (tokens ! j) \<le> char_range_begin
                      \<longrightarrow> j \<le> begin_idx)
          else begin_idx = 0)
         \<and> (if \<exists>j<length tokens. is_real (tokens ! j) \<and> tok_offset (tokens ! j) < char_range_end
            then end_idx < length tokens
                 \<and> is_real (tokens ! end_idx) \<and> tok_offset (tokens ! end_idx) < char_range_end
                 \<and> (\<forall>j<length tokens. is_real (tokens ! j) \<and> tok_offset (tokens ! j) < char_range_end
                        \<longrightarrow> j \<le> end_idx)
            else end_idx = 0)"
    using segment_range_ascending [OF _ _ assms] by blast
  from p1 p2 p3 p4 p5 p6 p7 go_home_value show ?thesis
    unfolding Let_def by (intro conjI)
qed

theorem segment_range_scan_witness:
  "segment_range go_home_tokens 3 7 = (1, 1)
   \<and> sorted_wrt (<) (real_offsets go_home_tokens)
   \<and> segment_range (visited go_home_tokens 7) 3 7 = (1, 1)
   \<and> is_real (visited go_home_tokens 7 ! 1) \<and> tok_offset (visited go_home_tokens 7 ! 1) \<le> 3
   \<and> is_real (go_home_tokens ! 1) \<and> tok_offset (go_home_tokens ! 1) \<le> 3"
proof -
  have h: "segment_range go_home_tokens 3 7 = (1, 1)"
    by (simp add: segment_range_def go_home_tokens_def)
  have ex: "\<exists>j<length (visited go_home_tokens 7).
      is_real (visited go_home_tokens 7 ! j) \<and> tok_offset (visited go_home_tokens 7 ! j) \<le> 3"
    by (intro exI [of _ 0]) (simp add: visited_def go_home_tokens_def is_real_def)
  have srt: "sorted_wrt (<) (real_offsets go_home_tokens)"
    by (simp add: real_offsets_def go_home_tokens_def is_real_def)
  have ex': "\<exists>j<length go_home_tokens.
      is_real (go_home_tokens ! j) \<and> tok_offset (go_home_tokens ! j) \<le> 3"
    by (intro exI [of _ 0]) (simp add: go_home_tokens_def is_real_def)
  from segment_range_scan [OF h] ex ex' srt h show ?thesis
    by (simp add: Let_def)
qed


section \<open>Anchor resolution: monotonicity\<close>

theorem segment_range_monotonic_counterexample:
  "(2::int) \<le> 2 \<and> (4::int) \<le> 6
   \<and> segment_range unordered_tokens 2 4 = (0, 0)
   \<and> segment_range unordered_tokens 2 6 = (2, 2)
   \<and> \<not> (fst (segment_range unordered_tokens 2 6) \<le> fst (segment_range unordered_tokens 2 4))"
  by (simp add: segment_range_def unordered_tokens_def)

lemma loop_fst_unchanged:
  "\<forall>t\<in>set ts. is_real t \<longrightarrow> b < tok_offset t \<Longrightarrow>
     fst (segment_range_loop (enumerate k ts) b e (bi, ei)) = bi"
  by (induction ts arbitrary: k ei) (auto simp: is_real_def Let_def)

lemma loop_snd_ge:
  "ei \<le> k \<Longrightarrow> ei \<le> snd (segment_range_loop (enumerate k ts) b e (bi, ei))"
proof (induction ts arbitrary: k bi ei)
  case Nil
  then show ?case by simp
next
  case (Cons t ts)
  from Cons.prems have "k \<le> snd (segment_range_loop (enumerate (Suc k) ts) b e (bi', k))" for bi'
    using Cons.IH [of k "Suc k" bi'] by simp
  moreover from Cons.prems have "ei \<le> snd (segment_range_loop (enumerate (Suc k) ts) b e (bi', ei))" for bi'
    using Cons.IH [of ei "Suc k" bi'] by simp
  ultimately show ?case using Cons.prems
    by (auto simp: Let_def intro: order_trans)
qed

lemma mono_loop:
  assumes "sorted_wrt (<) (real_offsets ts)" "b1 \<le> a1" "a1 \<le> a2" "a2 \<le> b2"
    and "biB \<le> biA" "eiA \<le> eiB" "biB \<le> k" "eiB \<le> k"
  shows "fst (segment_range_loop (enumerate k ts) b1 b2 (biB, eiB))
           \<le> fst (segment_range_loop (enumerate k ts) a1 a2 (biA, eiA))
       \<and> snd (segment_range_loop (enumerate k ts) a1 a2 (biA, eiA))
           \<le> snd (segment_range_loop (enumerate k ts) b1 b2 (biB, eiB))"
  using assms
proof (induction ts arbitrary: k biA eiA biB eiB)
  case Nil
  then show ?case by simp
next
  case (Cons t ts)
  let ?o = "tok_offset t"
  show ?case
  proof (cases "is_real t")
    case False
    with Cons.prems have "sorted_wrt (<) (real_offsets ts)" by (simp add: real_offsets_Cons)
    from Cons.IH [OF this Cons.prems(2,3,4,5,6), of "Suc k"] Cons.prems(7,8) False
    show ?thesis by (simp add: is_real_def Let_def)
  next
    case True
    with Cons.prems have srt: "sorted_wrt (<) (real_offsets ts)"
      and later: "\<forall>x\<in>set (real_offsets ts). ?o < x"
      by (simp_all add: real_offsets_Cons)
    let ?biA = "if ?o \<le> a1 then k else biA"
    let ?biB = "if ?o \<le> b1 then k else biB"
    have bi: "?biB \<le> ?biA" "?biB \<le> Suc k"
      using Cons.prems by auto
    consider (inA) "?o < a2" | (mid) "a2 \<le> ?o" "?o < b2" | (out) "b2 \<le> ?o" by linarith
    then show ?thesis
    proof cases
      case inA
      with Cons.prems have "?o < b2" by simp
      with inA True Cons.IH [OF srt Cons.prems(2,3,4) bi(1) _ bi(2), of k k]
      show ?thesis by (simp add: is_real_def Let_def)
    next
      case mid
      have "\<forall>t'\<in>set ts. is_real t' \<longrightarrow> b1 < tok_offset t'"
      proof (intro ballI impI)
        fix t' assume "t' \<in> set ts" "is_real t'"
        then have "?o < tok_offset t'" using later real_offsets_mem by blast
        with mid Cons.prems show "b1 < tok_offset t'" by simp
      qed
      then have f: "fst (segment_range_loop (enumerate (Suc k) ts) b1 b2 (?biB, k)) = ?biB"
        by (rule loop_fst_unchanged)
      have "k \<le> snd (segment_range_loop (enumerate (Suc k) ts) b1 b2 (?biB, k))"
        by (rule loop_snd_ge) simp
      with Cons.prems have s: "eiA \<le> snd (segment_range_loop (enumerate (Suc k) ts) b1 b2 (?biB, k))"
        by simp
      from mid True f s bi(1) show ?thesis
        by (simp add: is_real_def Let_def)
    next
      case out
      with Cons.prems have "a2 \<le> ?o" by simp
      with out True bi(1) Cons.prems show ?thesis
        by (simp add: is_real_def Let_def)
    qed
  qed
qed

text \<open>
  Claim C4, amended. When the offsets of the real tokens are strictly increasing in sequence
  order and the ranges satisfy \<open>b1 \<le> a1 \<le> a2 \<le> b2\<close>, the
  anchor range of \<open>[a1, a2)\<close> lies inside the anchor range of \<open>[b1, b2)\<close>. For token lists in
  any order the statement fails.
\<close>

theorem segment_range_monotonic:
  assumes "sorted_wrt (<) (real_offsets tokens)" and "b1 \<le> a1" and "a1 \<le> a2" and "a2 \<le> b2"
  shows "fst (segment_range tokens b1 b2) \<le> fst (segment_range tokens a1 a2)
       \<and> snd (segment_range tokens a1 a2) \<le> snd (segment_range tokens b1 b2)"
  using mono_loop [OF assms, of 0 0 0 0 0] by (simp add: segment_range_def)

theorem segment_range_monotonic_witness:
  "sorted_wrt (<) (real_offsets go_home_tokens)
   \<and> fst (segment_range go_home_tokens 0 8) \<le> fst (segment_range go_home_tokens 3 7)
   \<and> snd (segment_range go_home_tokens 3 7) \<le> snd (segment_range go_home_tokens 0 8)"
proof -
  have h: "sorted_wrt (<) (real_offsets go_home_tokens)"
    by (simp add: real_offsets_def go_home_tokens_def is_real_def)
  from segment_range_monotonic [OF h, of 0 3 7 8] h show ?thesis by simp
qed

text \<open>
  The order of the two bounds of the narrower range matters as well: with begin 7 above end 1
  the scan stops early, and the wider range \<open>[7, 8)\<close> starts at a later token.
\<close>

lemma segment_range_inverted_range:
  "segment_range go_home_tokens 7 1 = (1, 0) \<and> segment_range go_home_tokens 7 8 = (2, 2)"
  by (simp add: segment_range_def go_home_tokens_def)

section \<open>The tokenizer yields ascending offsets\<close>

text \<open>
  \<^verbatim>\<open>tokenize_per_paragraph\<close> adds the length of the paragraphs before it to every offset the
  tokenizer reports. When the tokenizer reports strictly increasing offsets inside each
  paragraph, the offsets of the real tokens of the whole sequence are strictly increasing; the
  paragraph of scenario 2 gives the tokens at 0, 3, 7 and one sentinel.
\<close>

lemma go_home_tokenized:
  "tokenize_per_paragraph go_home_nlp [''Go home.'' @ [NL]] = go_home_tokens"
  by (simp add: tokenize_per_paragraph_def paragraph_tokens_def go_home_nlp_def go_home_tokens_def)

lemma real_offsets_append: "real_offsets (xs @ ys) = real_offsets xs @ real_offsets ys"
  by (simp add: real_offsets_def)

lemma real_offsets_sentinel:
  "real_offsets [\<lparr>tok_text = a, tok_text_with_ws = b, tok_offset = - 1\<rparr>] = []"
  by (simp add: real_offsets_def is_real_def)

lemma paragraph_tokens_offsets:
  "map tok_offset (paragraph_tokens text_offset sents)
     = map (\<lambda>t. text_offset + sp_idx t) (filter (\<lambda>t. sp_text t \<noteq> [NL]) (concat sents))"
  by (induction sents) (simp_all add: paragraph_tokens_def comp_def)

lemma sorted_wrt_filter_map:
  "sorted_wrt (<) (map f xs) \<Longrightarrow> sorted_wrt (<) (map f (filter P xs))"
  by (induction xs) auto

lemma paragraph_tokens_real:
  assumes "ascending_inside par sents" and "0 \<le> text_offset"
  shows "real_offsets (paragraph_tokens text_offset sents) = map tok_offset (paragraph_tokens text_offset sents)"
    and "sorted_wrt (<) (map tok_offset (paragraph_tokens text_offset sents))"
    and "\<forall>x\<in>set (map tok_offset (paragraph_tokens text_offset sents)).
            text_offset \<le> x \<and> x < text_offset + int (length par)"
proof -
  from assms(1) have s: "sorted_wrt (<) (map sp_idx (concat sents))"
    and b: "\<forall>t\<in>set (concat sents). 0 \<le> sp_idx t \<and> sp_idx t < int (length par)"
    by (simp_all add: ascending_inside_def list_all_iff)
  from b show r: "\<forall>x\<in>set (map tok_offset (paragraph_tokens text_offset sents)).
            text_offset \<le> x \<and> x < text_offset + int (length par)"
    unfolding paragraph_tokens_offsets by auto
  with assms(2) have "\<forall>t\<in>set (paragraph_tokens text_offset sents). is_real t"
    by (auto simp: is_real_def)
  then show "real_offsets (paragraph_tokens text_offset sents) = map tok_offset (paragraph_tokens text_offset sents)"
    by (simp add: real_offsets_def)
  from s have "sorted_wrt (<) (map sp_idx (filter (\<lambda>t. sp_text t \<noteq> [NL]) (concat sents)))"
    by (rule sorted_wrt_filter_map)
  then have "sorted_wrt (<) (map (\<lambda>x. text_offset + x) (map sp_idx (filter (\<lambda>t. sp_text t \<noteq> [NL]) (concat sents))))"
    by (simp add: sorted_wrt_map)
  then show "sorted_wrt (<) (map tok_offset (paragraph_tokens text_offset sents))"
    unfolding paragraph_tokens_offsets by (simp add: comp_def)
qed

lemma tokenize_loop_ascending:
  assumes "\<forall>par\<in>set pars. ascending_inside par (nlp par)"
    and "sorted_wrt (<) (real_offsets tokens)"
    and "\<forall>x\<in>set (real_offsets tokens). x < text_offset"
    and "0 \<le> text_offset"
  shows "sorted_wrt (<) (real_offsets (tokenize_loop nlp pars (tokens, text_offset)))"
  using assms
proof (induction pars arbitrary: tokens text_offset)
  case Nil
  then show ?case by simp
next
  case (Cons par rest)
  let ?new = "paragraph_tokens text_offset (nlp par)"
  let ?tokens = "tokens @ ?new @ [\<lparr>tok_text = '''', tok_text_with_ws = '''', tok_offset = - 1\<rparr>]"
  from Cons.prems(1) have a: "ascending_inside par (nlp par)" by simp
  note p = paragraph_tokens_real [OF a Cons.prems(4)]
  have ro: "real_offsets ?tokens = real_offsets tokens @ map tok_offset ?new"
    by (simp add: real_offsets_append real_offsets_sentinel p(1))
  have "sorted_wrt (<) (real_offsets ?tokens)"
    unfolding ro using Cons.prems(2,3) p(2,3) by (fastforce simp: sorted_wrt_append)
  moreover have "\<forall>x\<in>set (real_offsets ?tokens). x < text_offset + int (length par)"
    unfolding ro using Cons.prems(3) p(3) by fastforce
  moreover have "0 \<le> text_offset + int (length par)" using Cons.prems(4) by simp
  moreover from Cons.prems(1) have "\<forall>par\<in>set rest. ascending_inside par (nlp par)" by simp
  ultimately show ?case using Cons.IH by simp
qed

lemma tokenize_per_paragraph_ascending:
  "\<forall>par\<in>set all_pars. ascending_inside par (nlp par) \<Longrightarrow>
     sorted_wrt (<) (real_offsets (tokenize_per_paragraph nlp all_pars))"
  unfolding tokenize_per_paragraph_def
  by (rule tokenize_loop_ascending) (simp_all add: real_offsets_def)

lemma segment_range_monotonic_tokenized:
  assumes "\<forall>par\<in>set all_pars. ascending_inside par (nlp par)"
    and "b1 \<le> a1" and "a1 \<le> a2" and "a2 \<le> b2"
  shows "fst (segment_range (tokenize_per_paragraph nlp all_pars) b1 b2)
           \<le> fst (segment_range (tokenize_per_paragraph nlp all_pars) a1 a2)
       \<and> snd (segment_range (tokenize_per_paragraph nlp all_pars) a1 a2)
           \<le> snd (segment_range (tokenize_per_paragraph nlp all_pars) b1 b2)"
  using mono_loop [OF tokenize_per_paragraph_ascending [OF assms(1)] assms(2,3,4), of 0 0 0 0 0]
  by (simp add: segment_range_def)

section \<open>Page lookup\<close>

lemma card_1_iff_ex1: "(card S = 1) = (\<exists>!x. x \<in> S)"
proof
  assume "card S = 1"
  then obtain x where "S = {x}" by (rule card_1_singletonE)
  then show "\<exists>!x. x \<in> S" by simp
next
  assume "\<exists>!x. x \<in> S"
  then obtain x where "x \<in> S" and "\<And>y. y \<in> S \<Longrightarrow> y = x" by blast
  then have "S = {x}" by blast
  then show "card S = 1" by simp
qed

lemma length_filter_1_iff:
  assumes "distinct xs"
  shows "(length (filter P xs) = 1) = (\<exists>!x. x \<in> set xs \<and> P x)"
proof -
  from assms have "distinct (filter P xs)" by simp
  from distinct_card [OF this] have "length (filter P xs) = card {x \<in> set xs. P x}"
    by simp
  then have "(length (filter P xs) = 1) = (card {x \<in> set xs. P x} = 1)" by simp
  also have "\<dots> = (\<exists>!x. x \<in> {x \<in> set xs. P x})" by (rule card_1_iff_ex1)
  finally show ?thesis by simp
qed

lemma unique_page_iff:
  assumes "distinct (map fst scan_ranges)"
  shows "(\<exists>!page_id. \<exists>s e. (page_id, s, e) \<in> set scan_ranges \<and> s \<le> offset \<and> offset < e)
       = (length (filter (\<lambda>sr. fst (snd sr) \<le> offset \<and> offset < snd (snd sr)) scan_ranges) = 1)"
proof -
  from assms have d: "distinct scan_ranges" by (simp add: distinct_map)
  have key: "\<And>p r r'. (p, r) \<in> set scan_ranges \<Longrightarrow> (p, r') \<in> set scan_ranges \<Longrightarrow> r = r'"
    using assms by (meson eq_key_imp_eq_value)
  show ?thesis
    unfolding length_filter_1_iff [OF d]
  proof
    assume "\<exists>!page_id. \<exists>s e. (page_id, s, e) \<in> set scan_ranges \<and> s \<le> offset \<and> offset < e"
    then obtain p s e where m: "(p, s, e) \<in> set scan_ranges" "s \<le> offset" "offset < e"
      and u: "\<And>p' s' e'. (p', s', e') \<in> set scan_ranges \<Longrightarrow> s' \<le> offset \<Longrightarrow> offset < e' \<Longrightarrow> p' = p"
      by blast
    show "\<exists>!x. x \<in> set scan_ranges \<and> fst (snd x) \<le> offset \<and> offset < snd (snd x)"
    proof (rule ex1I [of _ "(p, s, e)"])
      show "(p, s, e) \<in> set scan_ranges \<and> fst (snd (p, s, e)) \<le> offset \<and> offset < snd (snd (p, s, e))"
        using m by simp
    next
      fix x assume x: "x \<in> set scan_ranges \<and> fst (snd x) \<le> offset \<and> offset < snd (snd x)"
      obtain p' s' e' where xe: "x = (p', s', e')" by (cases x) auto
      with x u have "p' = p" by auto
      with x xe m key show "x = (p, s, e)" by auto
    qed
  next
    assume "\<exists>!x. x \<in> set scan_ranges \<and> fst (snd x) \<le> offset \<and> offset < snd (snd x)"
    then obtain x where x: "x \<in> set scan_ranges" "fst (snd x) \<le> offset" "offset < snd (snd x)"
      and u: "\<And>y. y \<in> set scan_ranges \<Longrightarrow> fst (snd y) \<le> offset \<Longrightarrow> offset < snd (snd y) \<Longrightarrow> y = x"
      by blast
    obtain p s e where xe: "x = (p, s, e)" by (cases x) auto
    show "\<exists>!page_id. \<exists>s e. (page_id, s, e) \<in> set scan_ranges \<and> s \<le> offset \<and> offset < e"
    proof (rule ex1I [of _ p])
      show "\<exists>s e. (p, s, e) \<in> set scan_ranges \<and> s \<le> offset \<and> offset < e"
        using x xe by auto
    next
      fix p' assume "\<exists>s e. (p', s, e) \<in> set scan_ranges \<and> s \<le> offset \<and> offset < e"
      then obtain s' e' where "(p', s', e') \<in> set scan_ranges" "s' \<le> offset" "offset < e'" by blast
      with u [of "(p', s', e')"] xe show "p' = p" by simp
    qed
  qed
qed

lemma filter_singleton_hd:
  "length (filter P xs) = 1 \<Longrightarrow> hd (filter P xs) \<in> set xs \<and> P (hd (filter P xs))"
proof -
  assume "length (filter P xs) = 1"
  then have "filter P xs \<noteq> []" by auto
  then have "hd (filter P xs) \<in> set (filter P xs)" by (rule hd_in_set)
  then show ?thesis by simp
qed

text \<open>
  Claim C6. \<^verbatim>\<open>scan_ranges\<close> is a dictionary, so its keys are distinct. When exactly one page
  has a range with \<open>start \<le> offset < end\<close>, \<^verbatim>\<open>get_page_id\<close> returns that page and prints
  nothing; when no page or more than one page has, it returns \<^verbatim>\<open>":placeholder:"\<close> and prints one
  diagnostic. The function has no failing branch: it returns in every case.
\<close>

theorem get_page_id_unique_or_placeholder:
  assumes "distinct (map fst scan_ranges)"
  shows "((\<exists>!page_id. \<exists>s e. (page_id, s, e) \<in> set scan_ranges \<and> s \<le> offset \<and> offset < e) \<longrightarrow>
            (\<exists>s e. (fst (get_page_id offset len scan_ranges), s, e) \<in> set scan_ranges
                    \<and> s \<le> offset \<and> offset < e)
            \<and> snd (get_page_id offset len scan_ranges) = [])
       \<and> (\<not> (\<exists>!page_id. \<exists>s e. (page_id, s, e) \<in> set scan_ranges \<and> s \<le> offset \<and> offset < e) \<longrightarrow>
            fst (get_page_id offset len scan_ranges) = '':placeholder:''
            \<and> length (snd (get_page_id offset len scan_ranges)) = 1)"
proof (intro conjI impI)
  let ?P = "\<lambda>sr::string \<times> int \<times> int. fst (snd sr) \<le> offset \<and> offset < snd (snd sr)"
  {
    assume "\<exists>!page_id. \<exists>s e. (page_id, s, e) \<in> set scan_ranges \<and> s \<le> offset \<and> offset < e"
    then have l: "length (filter ?P scan_ranges) = 1"
      using unique_page_iff [OF assms] by simp
    from filter_singleton_hd [OF l] l
    show "\<exists>s e. (fst (get_page_id offset len scan_ranges), s, e) \<in> set scan_ranges
                    \<and> s \<le> offset \<and> offset < e"
      by (cases "hd (filter ?P scan_ranges)") (auto simp: get_page_id_def Let_def)
    from l show "snd (get_page_id offset len scan_ranges) = []"
      by (simp add: get_page_id_def Let_def)
  }
  {
    assume "\<not> (\<exists>!page_id. \<exists>s e. (page_id, s, e) \<in> set scan_ranges \<and> s \<le> offset \<and> offset < e)"
    then have l: "length (filter ?P scan_ranges) \<noteq> 1"
      using unique_page_iff [OF assms] by simp
    then show "fst (get_page_id offset len scan_ranges) = '':placeholder:''"
      by (simp add: get_page_id_def Let_def)
    from l show "length (snd (get_page_id offset len scan_ranges)) = 1"
      by (simp add: get_page_id_def Let_def)
  }
qed

theorem get_page_id_unique_or_placeholder_witness:
  "distinct (map fst two_page_ranges)
   \<and> get_page_id 12 3 two_page_ranges = (''page-B'', [])
   \<and> (\<exists>s e. (''page-B'', s, e) \<in> set two_page_ranges \<and> s \<le> 12 \<and> 12 < e)
   \<and> fst (get_page_id 25 3 two_page_ranges) = '':placeholder:''"
proof -
  have d: "distinct (map fst two_page_ranges)" by (simp add: two_page_ranges_def)
  have v: "get_page_id 12 3 two_page_ranges = (''page-B'', [])"
    by (simp add: get_page_id_def two_page_ranges_def)
  have n: "\<not> (\<exists>!page_id. \<exists>s e. (page_id, s, e) \<in> set two_page_ranges \<and> s \<le> 25 \<and> 25 < e)"
    by (auto simp: two_page_ranges_def)
  have u: "\<exists>!page_id. \<exists>s e. (page_id, s, e) \<in> set two_page_ranges \<and> s \<le> 12 \<and> 12 < e"
    by (rule ex1I [of _ "''page-B''"]) (auto simp: two_page_ranges_def)
  from get_page_id_unique_or_placeholder [OF d, of 12 3] u
  have "\<exists>s e. (fst (get_page_id 12 3 two_page_ranges), s, e) \<in> set two_page_ranges \<and> s \<le> 12 \<and> 12 < e"
    by blast
  moreover from get_page_id_unique_or_placeholder [OF d, of 25 3] n
  have "fst (get_page_id 25 3 two_page_ranges) = '':placeholder:''" by blast
  ultimately show ?thesis using d v by simp
qed

text \<open>
  Claim C9. The page id \<^verbatim>\<open>get_page_id\<close> returns depends on the offset and the ranges only: two
  calls that differ in the length return the same page id. An annotation that starts inside a
  page and runs past its end is given the page that contains its start offset.
\<close>

theorem get_page_id_ignores_length:
  "fst (get_page_id offset len1 scan_ranges) = fst (get_page_id offset len2 scan_ranges)
   \<and> (distinct (map fst scan_ranges)
        \<and> (page_id, s, e) \<in> set scan_ranges \<and> s \<le> offset \<and> offset < e \<and> e < offset + len
        \<and> (\<forall>p' s' e'. (p', s', e') \<in> set scan_ranges \<and> s' \<le> offset \<and> offset < e' \<longrightarrow> p' = page_id)
      \<longrightarrow> get_page_id offset len scan_ranges = (page_id, []))"
proof (intro conjI impI)
  show "fst (get_page_id offset len1 scan_ranges) = fst (get_page_id offset len2 scan_ranges)"
    by (simp add: get_page_id_def Let_def)
next
  let ?P = "\<lambda>sr::string \<times> int \<times> int. fst (snd sr) \<le> offset \<and> offset < snd (snd sr)"
  assume a: "distinct (map fst scan_ranges)
        \<and> (page_id, s, e) \<in> set scan_ranges \<and> s \<le> offset \<and> offset < e \<and> e < offset + len
        \<and> (\<forall>p' s' e'. (p', s', e') \<in> set scan_ranges \<and> s' \<le> offset \<and> offset < e' \<longrightarrow> p' = page_id)"
  then have "\<exists>!p. \<exists>s e. (p, s, e) \<in> set scan_ranges \<and> s \<le> offset \<and> offset < e"
    by (intro ex1I [of _ page_id]) blast+
  with a have l: "length (filter ?P scan_ranges) = 1"
    using unique_page_iff [of scan_ranges offset] by simp
  from filter_singleton_hd [OF l] a have "fst (hd (filter ?P scan_ranges)) = page_id"
    by (cases "hd (filter ?P scan_ranges)") auto
  with l show "get_page_id offset len scan_ranges = (page_id, [])"
    by (simp add: get_page_id_def Let_def)
qed

theorem get_page_id_ignores_length_witness:
  "get_page_id 8 5 two_page_ranges = (''page-A'', [])
   \<and> fst (get_page_id 8 5 two_page_ranges) = fst (get_page_id 8 1 two_page_ranges)
   \<and> (10::int) < 8 + 5"
proof -
  have h: "distinct (map fst two_page_ranges)
        \<and> (''page-A'', 0, 10) \<in> set two_page_ranges \<and> (0::int) \<le> 8 \<and> (8::int) < 10 \<and> (10::int) < 8 + 5
        \<and> (\<forall>p' s' e'. (p', s', e') \<in> set two_page_ranges \<and> s' \<le> 8 \<and> 8 < e' \<longrightarrow> p' = ''page-A'')"
    by (auto simp: two_page_ranges_def)
  have v: "fst (get_page_id 8 1 two_page_ranges) = ''page-A''"
    by (simp add: get_page_id_def two_page_ranges_def)
  from get_page_id_ignores_length [of 8 5 two_page_ranges 1 "''page-A''" 0 10 5] h v
  show ?thesis by simp
qed

section \<open>CoNLL export\<close>

theorem conll_export_tab_counterexample:
  "export_conll [go_token] = ''Go O'' @ [NL]
   \<and> export_conll [go_token] \<noteq> ''Go'' @ [CHR 0x09] @ ''O'' @ [NL]"
  by (simp add: export_conll_def as_conll2002_def to_conll2002_def go_token_def)

lemma to_conll2002_one_newline:
  "NL \<notin> set token \<Longrightarrow> count_list (to_conll2002 token) NL = 1"
  by (induction token) (auto simp: to_conll2002_def)

text \<open>
  Claim C8, amended. The export writes one string per token, in order. For a token whose text
  is neither empty nor a lone newline the string is the token text, one space, \<^verbatim>\<open>O\<close> and a
  newline; it is a single line when the text holds no newline. For a token whose text is empty,
  as for every paragraph-boundary sentinel, or a lone newline, the string is a blank line. The
  separator is a space, not a tab.
\<close>

theorem conll_export_lines:
  "length (as_conll2002 (map tok_text tokens)) = length tokens
   \<and> export_conll tokens = concat (as_conll2002 (map tok_text tokens))
   \<and> (\<forall>i<length tokens.
        as_conll2002 (map tok_text tokens) ! i =
          (if tok_text (tokens ! i) = [] \<or> tok_text (tokens ! i) = [NL] then [NL]
           else tok_text (tokens ! i) @ '' O'' @ [NL])
        \<and> (NL \<notin> set (tok_text (tokens ! i)) \<longrightarrow>
             count_list (as_conll2002 (map tok_text tokens) ! i) NL = 1))"
  by (simp add: as_conll2002_def export_conll_def to_conll2002_one_newline)
    (simp add: to_conll2002_def)

theorem conll_export_lines_witness:
  "as_conll2002 (map tok_text go_home_tokens) ! 1 = ''home O'' @ [NL]
   \<and> as_conll2002 (map tok_text go_home_tokens) ! 3 = [NL]
   \<and> count_list (as_conll2002 (map tok_text go_home_tokens) ! 1) NL = 1
   \<and> export_conll go_home_tokens = ''Go O'' @ [NL] @ ''home O'' @ [NL] @ ''. O'' @ [NL] @ [NL]"
proof -
  have l: "(1::nat) < length go_home_tokens" "(3::nat) < length go_home_tokens"
    by (simp_all add: go_home_tokens_def)
  have t: "tok_text (go_home_tokens ! 1) = ''home''" "tok_text (go_home_tokens ! 3) = []"
    by (simp_all add: go_home_tokens_def)
  have e: "export_conll go_home_tokens = ''Go O'' @ [NL] @ ''home O'' @ [NL] @ ''. O'' @ [NL] @ [NL]"
    by (simp add: export_conll_def as_conll2002_def to_conll2002_def go_home_tokens_def)
  from conll_export_lines [of go_home_tokens] l t e show ?thesis
    by auto
qed


section \<open>Ordering before export\<close>

text \<open>
  Claim C2, at an input where the sort departs from the order by (page id, offset ascending,
  length descending). The page and its first region have the same page id and the same offset,
  and the page is the longer. Both lengths exceed 1000, so both keys end in a negative number,
  and \<^verbatim>\<open>-00500\<close> sorts before \<^verbatim>\<open>-02000\<close>: the shorter region comes out before the page that
  contains it.
\<close>

theorem sort_puts_nested_region_before_page:
  "ann_page_id sample_page = ann_page_id sample_region
   \<and> ann_offset sample_page = ann_offset sample_region
   \<and> ann_length sample_region < ann_length sample_page
   \<and> annotation_sort_key sample_page = ''scan_0001 000000 -02000''
   \<and> annotation_sort_key sample_region = ''scan_0001 000000 -00500''
   \<and> sort_annotations [sample_page, sample_region] = [sample_region, sample_page]"
  by code_simp


section \<open>Text targets\<close>

text \<open>
  Claim C3, at an annotation that carries a plain-text version id. The assembler emits the
  anchor-selector target and the cutout target and nothing else: the FragmentSelector target is
  built inside \<^verbatim>\<open>make_text_targets\<close> and left out of the list it returns.
\<close>

theorem text_targets_without_fragment_selector:
  "ann_txt_version_id sample_token = ''txt-v1''
   \<and> make_text_targets ''https://globalise.tt.di.huc.knaw.nl/textrepo'' sample_token =
       [JDict [(''source'', JStr ''https://globalise.tt.di.huc.knaw.nl/textrepo/rest/versions/seg-v1/contents''),
               (''type'', JStr ''Text''),
               (''selector'', JDict [(''@context'', JStr ''https://brambg.github.io/ns/republic.jsonld''),
                                     (''type'', JStr ''urn:republic:TextAnchorSelector''),
                                     (''start'', JInt 4),
                                     (''end'', JInt 4)])],
        JDict [(''source'', JStr ''https://globalise.tt.di.huc.knaw.nl/textrepo/view/versions/seg-v1/segments/index/4/4''),
               (''type'', JStr ''Text'')]]
   \<and> annotation_targets Map.empty sample_token =
       Inr (make_text_targets ''https://globalise.tt.di.huc.knaw.nl/textrepo'' sample_token)"
  by code_simp

lemma make_text_targets_length: "length (make_text_targets url a) = 2"
  by (simp add: make_text_targets_def Let_def)

section \<open>Word annotations and the concatenated text\<close>

lemma lstrip_unchanged: "\<not> starts_with_space s \<Longrightarrow> lstrip s = s"
  by (cases s) (simp_all add: starts_with_space_def lstrip_def)

lemma rstrip_prefix: "\<exists>w. s = rstrip s @ w"
proof -
  have "rev (dropWhile is_space (rev s)) @ rev (takeWhile is_space (rev s))
      = rev (takeWhile is_space (rev s) @ dropWhile is_space (rev s))"
    by (simp only: rev_append)
  also have "\<dots> = s" by (simp only: takeWhile_dropWhile_id rev_rev_ident)
  finally have "s = rstrip s @ rev (takeWhile is_space (rev s))"
    by (simp add: rstrip_def)
  then show ?thesis ..
qed

lemma strip_Nil: "strip [] = []"
  by (simp add: strip_def lstrip_def rstrip_def)

lemma rstrip_idem: "rstrip (rstrip s) = rstrip s"
  by (simp add: rstrip_def dropWhile_idem)

lemma length_rstrip_le: "length (rstrip s) \<le> length s"
  by (simp add: rstrip_def length_dropWhile_le [of is_space "rev s", simplified])

lemma length_lstrip_le: "length (lstrip s) \<le> length s"
  by (simp add: lstrip_def length_dropWhile_le)

lemma length_strip_le: "length (strip s) \<le> length s"
  unfolding strip_def using length_rstrip_le [of "lstrip s"] length_lstrip_le [of s] by simp

lemma starts_with_space_prefix:
  "s = r @ w \<Longrightarrow> r \<noteq> [] \<Longrightarrow> starts_with_space r = starts_with_space s"
  by (cases r) (simp_all add: starts_with_space_def)

lemma strip_take_strip:
  assumes "\<not> starts_with_space t \<or> strip t = []"
  shows "strip (take (length (strip t)) t) = strip t"
proof (cases "strip t = []")
  case True
  then show ?thesis by (simp add: strip_Nil)
next
  case False
  with assms have ns: "\<not> starts_with_space t" by simp
  then have st: "strip t = rstrip t" by (simp add: strip_def lstrip_unchanged)
  obtain w where t: "t = rstrip t @ w" using rstrip_prefix by blast
  then have "take (length (rstrip t)) t = take (length (rstrip t)) (rstrip t @ w)" by simp
  then have tk: "take (length (rstrip t)) t = rstrip t" by simp
  from False st have "rstrip t \<noteq> []" by simp
  with t ns have "\<not> starts_with_space (rstrip t)"
    using starts_with_space_prefix [of t "rstrip t" w] by simp
  then have "strip (rstrip t) = rstrip t"
    by (simp add: strip_def lstrip_unchanged rstrip_idem)
  with st tk show ?thesis by simp
qed

lemma strip_take_shorter:
  assumes "starts_with_space t" and "strip t \<noteq> []"
  shows "strip (take (length (strip t)) t) \<noteq> strip t"
proof -
  from assms(1) obtain c t' where t: "t = c # t'" and c: "is_space c"
    by (cases t) (simp_all add: starts_with_space_def)
  from assms(2) obtain n where n: "length (strip t) = Suc n"
    by (cases "length (strip t)") simp_all
  have "take (Suc n) t = c # take n t'" using t by simp
  then have "lstrip (take (Suc n) t) = lstrip (take n t')"
    using c by (simp add: lstrip_def)
  then have "length (strip (take (Suc n) t)) \<le> length (lstrip (take n t'))"
    unfolding strip_def using length_rstrip_le [of "lstrip (take n t')"] by simp
  also have "\<dots> \<le> length (take n t')" by (rule length_lstrip_le)
  also have "\<dots> \<le> n" by simp
  finally have "length (strip (take (length (strip t)) t)) < length (strip t)"
    using n by simp
  then show ?thesis by auto
qed

lemma py_slice_middle:
  assumes "l \<le> length t"
  shows "py_slice (pre @ t @ post) (Some (int (length pre))) (Some (int (length pre) + int l)) = take l t"
proof -
  have "slice_bound (length (pre @ t @ post)) (int (length pre)) = length pre"
    by (simp add: slice_bound_def)
  moreover have "slice_bound (length (pre @ t @ post)) (int (length pre) + int l) = length pre + l"
    using assms by (simp add: slice_bound_def nat_add_distrib)
  ultimately show ?thesis using assms by (simp add: py_slice_def Let_def)
qed

lemma word_annotation_fields:
  "word_annotation id_prefix stripped acc_text w = Inr wa \<Longrightarrow>
     ann_offset wa = int (length acc_text) \<and> ann_length wa = int (length stripped)
     \<and> md_text (ann_metadata wa) = Some stripped"
  by (auto simp: word_annotation_def split: list.splits)

lemma process_pagexml_words_inv:
  "process_pagexml_words id_prefix ws (anns, idx, acc_text) = Inr (anns', idx', acc_text') \<Longrightarrow>
     acc_text' = acc_text @ concat (map dw_text ws)
     \<and> length anns' = length anns + length ws
     \<and> take (length anns) anns' = anns
     \<and> (\<forall>i<length ws.
          ann_offset (anns' ! (length anns + i)) = int (length (acc_text @ concat (map dw_text (take i ws))))
          \<and> ann_length (anns' ! (length anns + i)) = int (length (strip (dw_text (ws ! i))))
          \<and> md_text (ann_metadata (anns' ! (length anns + i))) = Some (strip (dw_text (ws ! i))))"
proof (induction ws arbitrary: anns idx acc_text)
  case Nil
  then show ?case by simp
next
  case (Cons w rest)
  from Cons.prems obtain wa where
    wa: "word_annotation id_prefix (strip (dw_text w)) acc_text w = Inr wa"
    and rec: "process_pagexml_words id_prefix rest
       (anns @ [wa], idx(dw_id w \<mapsto> (ann_offset wa, ann_offset wa + ann_length wa)), acc_text @ dw_text w)
       = Inr (anns', idx', acc_text')"
    by (auto simp: and_then_def Let_def split: sum.splits)
  note ih = Cons.IH [OF rec]
  from ih have t: "acc_text' = acc_text @ concat (map dw_text (w # rest))" by simp
  from ih have l: "length anns' = length anns + length (w # rest)" by simp
  from ih have tk: "take (Suc (length anns)) anns' = anns @ [wa]" by simp
  then have "take (length anns) (take (Suc (length anns)) anns') = take (length anns) (anns @ [wa])"
    by (rule arg_cong)
  then have tk': "take (length anns) anns' = anns" by (simp add: min_def)
  from tk have "take (Suc (length anns)) anns' ! length anns = (anns @ [wa]) ! length anns"
    by (rule arg_cong)
  then have at: "anns' ! length anns = wa" by simp
  have "\<forall>i<length (w # rest).
          ann_offset (anns' ! (length anns + i)) = int (length (acc_text @ concat (map dw_text (take i (w # rest)))))
          \<and> ann_length (anns' ! (length anns + i)) = int (length (strip (dw_text ((w # rest) ! i))))
          \<and> md_text (ann_metadata (anns' ! (length anns + i))) = Some (strip (dw_text ((w # rest) ! i)))"
  proof (intro allI impI)
    fix i assume i: "i < length (w # rest)"
    show "ann_offset (anns' ! (length anns + i)) = int (length (acc_text @ concat (map dw_text (take i (w # rest)))))
          \<and> ann_length (anns' ! (length anns + i)) = int (length (strip (dw_text ((w # rest) ! i))))
          \<and> md_text (ann_metadata (anns' ! (length anns + i))) = Some (strip (dw_text ((w # rest) ! i)))"
    proof (cases i)
      case 0
      with at word_annotation_fields [OF wa] show ?thesis by simp
    next
      case (Suc j)
      with i have "j < length rest" by simp
      with ih have "ann_offset (anns' ! (length (anns @ [wa]) + j)) = int (length ((acc_text @ dw_text w) @ concat (map dw_text (take j rest))))
          \<and> ann_length (anns' ! (length (anns @ [wa]) + j)) = int (length (strip (dw_text (rest ! j))))
          \<and> md_text (ann_metadata (anns' ! (length (anns @ [wa]) + j))) = Some (strip (dw_text (rest ! j)))"
        by blast
      with Suc show ?thesis by simp
    qed
  qed
  with t l tk' show ?case by blast
qed

lemma process_pagexml_words_returns:
  "\<forall>w\<in>set ws. dw_px_words w \<noteq> [] \<Longrightarrow>
     \<exists>r. process_pagexml_words id_prefix ws (anns, idx, acc_text) = Inr r"
proof (induction ws arbitrary: anns idx acc_text)
  case Nil
  then show ?case by simp
next
  case (Cons w rest)
  from Cons.prems obtain p ps where "dw_px_words w = p # ps"
    by (cases "dw_px_words w") auto
  then obtain wa where "word_annotation id_prefix (strip (dw_text w)) acc_text w = Inr wa"
    by (simp add: word_annotation_def)
  with Cons show ?case by (simp add: and_then_def Let_def)
qed

text \<open>
  Claim C5, amended. The word loop appends the unstripped text of every display word to the
  running text; the annotation of word \<open>i\<close> has the running length before the append as its
  offset, the length of the stripped text as its length and the stripped text as
  \<^verbatim>\<open>metadata.text\<close>. That text equals the stripped form of \<^verbatim>\<open>text[offset:offset+length]\<close> exactly
  when the word's unstripped text does not begin with whitespace, or consists of whitespace only.
\<close>

theorem word_annotation_text_roundtrip:
  assumes "process_pagexml_word_loop id_prefix display_words = Inr (annotations, display_word_range_idx, text)"
    and "i < length display_words"
  shows "text = concat (map dw_text display_words)
     \<and> length annotations = length display_words
     \<and> ann_offset (annotations ! i) = int (length (concat (map dw_text (take i display_words))))
     \<and> ann_length (annotations ! i) = int (length (strip (dw_text (display_words ! i))))
     \<and> md_text (ann_metadata (annotations ! i)) = Some (strip (dw_text (display_words ! i)))
     \<and> ((md_text (ann_metadata (annotations ! i)) =
           Some (strip (py_slice text (Some (ann_offset (annotations ! i)))
                          (Some (ann_offset (annotations ! i) + ann_length (annotations ! i))))))
        = (\<not> starts_with_space (dw_text (display_words ! i)) \<or> strip (dw_text (display_words ! i)) = []))"
proof -
  let ?t = "dw_text (display_words ! i)"
  let ?pre = "concat (map dw_text (take i display_words))"
  let ?post = "concat (map dw_text (drop (Suc i) display_words))"
  from assms(1) have inv:
    "text = concat (map dw_text display_words)"
    "length annotations = length display_words"
    "\<forall>i<length display_words.
        ann_offset (annotations ! i) = int (length (concat (map dw_text (take i display_words))))
        \<and> ann_length (annotations ! i) = int (length (strip (dw_text (display_words ! i))))
        \<and> md_text (ann_metadata (annotations ! i)) = Some (strip (dw_text (display_words ! i)))"
    using process_pagexml_words_inv [of id_prefix display_words "[]" Map.empty "[]" annotations display_word_range_idx "text"]
    by (simp_all add: process_pagexml_word_loop_def)
  from inv(3) assms(2) have f:
    "ann_offset (annotations ! i) = int (length ?pre)"
    "ann_length (annotations ! i) = int (length (strip ?t))"
    "md_text (ann_metadata (annotations ! i)) = Some (strip ?t)"
    by simp_all
  from assms(2) have "display_words = take i display_words @ display_words ! i # drop (Suc i) display_words"
    by (simp add: id_take_nth_drop)
  then have "concat (map dw_text display_words)
      = concat (map dw_text (take i display_words @ display_words ! i # drop (Suc i) display_words))"
    by (rule arg_cong)
  with inv(1) have split: "text = ?pre @ ?t @ ?post" by simp
  have "py_slice (?pre @ ?t @ ?post) (Some (int (length ?pre))) (Some (int (length ?pre) + int (length (strip ?t))))
      = take (length (strip ?t)) ?t"
    by (rule py_slice_middle) (rule length_strip_le)
  with split f have sl: "py_slice text (Some (ann_offset (annotations ! i)))
         (Some (ann_offset (annotations ! i) + ann_length (annotations ! i))) = take (length (strip ?t)) ?t"
    by simp
  have "(strip ?t = strip (take (length (strip ?t)) ?t)) = (\<not> starts_with_space ?t \<or> strip ?t = [])"
    using strip_take_strip [of ?t] strip_take_shorter [of ?t] by metis
  with sl f inv(1,2) show ?thesis by simp
qed

theorem word_annotation_text_roundtrip_witness:
  "(case process_pagexml_word_loop ''urn:globalise:scan_0001'' [sample_word ''w1'' ''Go '', sample_word ''w2'' ''home. ''] of
      Inl _ \<Rightarrow> False
    | Inr (annotations, _, text) \<Rightarrow>
        text = ''Go home. ''
        \<and> ann_offset (annotations ! 1) = 3 \<and> ann_length (annotations ! 1) = 5
        \<and> md_text (ann_metadata (annotations ! 1)) = Some ''home.''
        \<and> md_text (ann_metadata (annotations ! 1)) =
            Some (strip (py_slice text (Some (ann_offset (annotations ! 1)))
                           (Some (ann_offset (annotations ! 1) + ann_length (annotations ! 1))))))"
proof -
  let ?ws = "[sample_word ''w1'' ''Go '', sample_word ''w2'' ''home. '']"
  obtain r where r: "process_pagexml_word_loop ''urn:globalise:scan_0001'' ?ws = Inr r"
    using process_pagexml_words_returns [of ?ws "''urn:globalise:scan_0001''" "[]" Map.empty "[]"]
    by (auto simp: process_pagexml_word_loop_def sample_word_def)
  obtain annotations idx acc_text where rr: "r = (annotations, idx, acc_text)" by (cases r) auto
  have i: "(1::nat) < length ?ws" by simp
  have ns: "\<not> starts_with_space (dw_text (?ws ! 1))"
    by (simp add: sample_word_def starts_with_space_def is_space_def)
  have st: "strip (dw_text (?ws ! 1)) = ''home.''"
    by (simp add: sample_word_def strip_def lstrip_def rstrip_def is_space_def)
  from word_annotation_text_roundtrip [OF r [unfolded rr] i] ns st
  show ?thesis unfolding r rr
    by (simp add: sample_word_def strip_def lstrip_def rstrip_def is_space_def py_slice_def slice_bound_def)
qed

theorem word_annotation_text_roundtrip_counterexample:
  "(case process_pagexml_word_loop ''urn:globalise:scan_0001'' [sample_word ''w1'' '' ab ''] of
      Inl _ \<Rightarrow> False
    | Inr (annotations, _, text) \<Rightarrow>
        text = '' ab ''
        \<and> ann_offset (annotations ! 0) = 0 \<and> ann_length (annotations ! 0) = 2
        \<and> md_text (ann_metadata (annotations ! 0)) = Some ''ab''
        \<and> strip (py_slice text (Some (ann_offset (annotations ! 0)))
                   (Some (ann_offset (annotations ! 0) + ann_length (annotations ! 0)))) = ''a''
        \<and> md_text (ann_metadata (annotations ! 0)) \<noteq>
            Some (strip (py_slice text (Some (ann_offset (annotations ! 0)))
                           (Some (ann_offset (annotations ! 0) + ann_length (annotations ! 0))))))"
  by (simp add: process_pagexml_word_loop_def sample_word_def word_annotation_def and_then_def
      strip_def lstrip_def rstrip_def is_space_def py_slice_def slice_bound_def Let_def)

section \<open>XMI to web annotations\<close>

lemma get_prefix_cong: "fs_begin a = fs_begin b \<Longrightarrow> get_prefix self a = get_prefix self b"
  by (simp add: get_prefix_def)

lemma get_suffix_cong: "fs_end a = fs_end b \<Longrightarrow> get_suffix self a = get_suffix self b"
  by (simp add: get_suffix_def)

lemma get_covered_text_cong:
  "fs_begin a = fs_begin b \<Longrightarrow> fs_end a = fs_end b \<Longrightarrow> get_covered_text self a = get_covered_text self b"
  by (simp add: get_covered_text_def)

lemma get_prefix_returns: "fs_begin a = Some b \<Longrightarrow> \<exists>p. get_prefix self a = Inr p"
  by (simp add: get_prefix_def Let_def)

lemma get_suffix_returns: "fs_end a = Some e \<Longrightarrow> \<exists>s. get_suffix self a = Inr s"
  by (simp add: get_suffix_def Let_def)

lemma get_prefix_Inr: "get_prefix self a = Inr p \<Longrightarrow> \<exists>b. fs_begin a = Some b"
  by (cases "fs_begin a") (simp_all add: get_prefix_def)

lemma get_suffix_Inr: "get_suffix self a = Inr s \<Longrightarrow> \<exists>e. fs_end a = Some e"
  by (cases "fs_end a") (simp_all add: get_suffix_def)

text \<open>The function once the feature structure to read is known.\<close>

lemma as_web_annotation_truthy:
  assumes "fs_begin fs = Some b" and "b \<noteq> 0"
  shows "as_web_annotation self set_order generated fs body =
     and_then (get_prefix self fs) (\<lambda>prefix.
     and_then (get_suffix self fs) (\<lambda>suffix.
       case fs_end fs of
         None \<Rightarrow> Inl TypeError
       | Some e \<Rightarrow>
           and_then (interval_targets (sorted_intervals set_order (itree_overlap (xp_itree self) b e))) (\<lambda>more.
             Inr (JDict
                    [(''@context'', JStr ''http://www.w3.org/ns/anno.jsonld''),
                     (''id'', JStr (''urn:globalise:annotation:'' @ str_int (xmiID fs))),
                     (''type'', JStr ''Annotation''),
                     (''generated'', JStr generated),
                     (''body'', body),
                     (''target'', JList
                        (JDict [(''source'', JStr (xp_plain_text_source self)),
                                (''selector'', JList
                                   [JDict ([(''type'', JStr ''TextQuoteSelector''),
                                            (''exact'', JStr (get_covered_text self fs))]
                                           @ (if prefix \<noteq> [] then [(''prefix'', JStr prefix)] else [])
                                           @ (if suffix \<noteq> [] then [(''suffix'', JStr suffix)] else [])),
                                    JDict [(''type'', JStr ''TextPositionSelector''),
                                           (''start'', JInt b),
                                           (''end'', JInt e)]])] # more))],
                  if 1 < length (itree_overlap (xp_itree self) b e)
                  then [LogWarning ''>1 overlapping intervals!''] else []))))"
  using assms
  by (simp add: as_web_annotation_def Let_def and_then_def split: sum.splits option.splits)


lemma as_web_annotation_no_target:
  assumes "fs_begin fs = None \<or> fs_begin fs = Some 0" and "fs_target fs = None"
  shows "as_web_annotation self set_order generated fs body = Inl AttributeError"
  using assms by (auto simp: as_web_annotation_def Let_def)

lemma as_web_annotation_Inr:
  assumes "as_web_annotation self set_order generated fs body = Inr (wa, l)"
  shows "\<exists>t b e tqs more.
           (if fs_begin fs = None \<or> fs_begin fs = Some 0 then fs_target fs else Some fs) = Some t
           \<and> fs_begin t = Some b \<and> fs_end t = Some e
           \<and> json_get tqs ''exact'' = Inr (JStr (get_covered_text self t))
           \<and> interval_targets (sorted_intervals set_order (itree_overlap (xp_itree self) b e)) = Inr more
           \<and> json_get wa ''id'' = Inr (JStr (''urn:globalise:annotation:'' @ str_int (xmiID fs)))
           \<and> json_get wa ''target'' =
               Inr (JList (JDict [(''source'', JStr (xp_plain_text_source self)),
                                  (''selector'', JList
                                     [tqs,
                                      JDict [(''type'', JStr ''TextPositionSelector''),
                                             (''start'', JInt b),
                                             (''end'', JInt e)]])] # more))"
proof -
  note d = as_web_annotation_def Let_def and_then_def
  from assms obtain t where
    t: "(if fs_begin fs = None \<or> fs_begin fs = Some 0 then fs_target fs else Some fs) = Some t"
    by (cases "if fs_begin fs = None \<or> fs_begin fs = Some 0 then fs_target fs else Some fs")
       (auto simp: d)
  from assms t obtain prefix where p: "get_prefix self t = Inr prefix"
    by (cases "get_prefix self t") (auto simp: d)
  from assms t p obtain suffix where s: "get_suffix self t = Inr suffix"
    by (cases "get_suffix self t") (auto simp: d)
  from p obtain b where b: "fs_begin t = Some b" using get_prefix_Inr by blast
  from s obtain e where e: "fs_end t = Some e" using get_suffix_Inr by blast
  from assms t p s b e obtain more where
    m: "interval_targets (sorted_intervals set_order (itree_overlap (xp_itree self) b e)) = Inr more"
    by (cases "interval_targets (sorted_intervals set_order (itree_overlap (xp_itree self) b e))")
       (auto simp: d)
  let ?tqs = "JDict ([(''type'', JStr ''TextQuoteSelector''),
                      (''exact'', JStr (get_covered_text self t))]
                     @ (if prefix \<noteq> [] then [(''prefix'', JStr prefix)] else [])
                     @ (if suffix \<noteq> [] then [(''suffix'', JStr suffix)] else []))"
  have q: "json_get ?tqs ''exact'' = Inr (JStr (get_covered_text self t))"
    by (simp add: json_get_def)
  from assms t p s b e m have wa: "wa = JDict
                    [(''@context'', JStr ''http://www.w3.org/ns/anno.jsonld''),
                     (''id'', JStr (''urn:globalise:annotation:'' @ str_int (xmiID fs))),
                     (''type'', JStr ''Annotation''),
                     (''generated'', JStr generated),
                     (''body'', body),
                     (''target'', JList
                        (JDict [(''source'', JStr (xp_plain_text_source self)),
                                (''selector'', JList
                                   [?tqs,
                                    JDict [(''type'', JStr ''TextPositionSelector''),
                                           (''start'', JInt b),
                                           (''end'', JInt e)]])] # more))]"
    by (auto simp: d)
  have "json_get wa ''id'' = Inr (JStr (''urn:globalise:annotation:'' @ str_int (xmiID fs)))"
    unfolding wa by (simp add: json_get_def)
  moreover have "json_get wa ''target'' =
               Inr (JList (JDict [(''source'', JStr (xp_plain_text_source self)),
                                  (''selector'', JList
                                     [?tqs,
                                      JDict [(''type'', JStr ''TextPositionSelector''),
                                             (''start'', JInt b),
                                             (''end'', JInt e)]])] # more))"
    unfolding wa by (simp add: json_get_def)
  ultimately show ?thesis using t b e q m by blast
qed


lemma as_web_annotation_falsy_Inr:
  assumes "fs_begin fs = None \<or> fs_begin fs = Some 0" and "fs_target fs = Some t"
    and "as_web_annotation self set_order generated fs body = Inr (wa, l)"
  shows "\<exists>b e tqs more. fs_begin t = Some b \<and> fs_end t = Some e
           \<and> json_get tqs ''exact'' = Inr (JStr (get_covered_text self t))
           \<and> interval_targets (sorted_intervals set_order (itree_overlap (xp_itree self) b e)) = Inr more
           \<and> json_get wa ''id'' = Inr (JStr (''urn:globalise:annotation:'' @ str_int (xmiID fs)))
           \<and> json_get wa ''target'' =
               Inr (JList (JDict [(''source'', JStr (xp_plain_text_source self)),
                                  (''selector'', JList
                                     [tqs,
                                      JDict [(''type'', JStr ''TextPositionSelector''),
                                             (''start'', JInt b),
                                             (''end'', JInt e)]])] # more))"
proof -
  from assms(1,2) have
    "(if fs_begin fs = None \<or> fs_begin fs = Some 0 then fs_target fs else Some fs) = Some t"
    by auto
  with as_web_annotation_Inr [OF assms(3)] show ?thesis by auto
qed

lemma as_web_annotation_falsy_eq:
  assumes "fs_begin fs = None \<or> fs_begin fs = Some 0" and "fs_target fs = Some t"
    and "fs_begin t \<noteq> None" and "fs_begin t \<noteq> Some 0"
  shows "as_web_annotation self set_order generated fs body =
         as_web_annotation self set_order generated
           (FeatureStructure (xmiID fs) (fs_begin t) (fs_end t) (fs_target t)) body"
proof -
  let ?t' = "FeatureStructure (xmiID fs) (fs_begin t) (fs_end t) (fs_target t)"
  have e1: "get_prefix self ?t' = get_prefix self t" by (rule get_prefix_cong) simp
  have e2: "get_suffix self ?t' = get_suffix self t" by (rule get_suffix_cong) simp
  have e3: "get_covered_text self ?t' = get_covered_text self t"
    by (rule get_covered_text_cong) simp_all
  have l: "(if fs_begin fs = None \<or> fs_begin fs = Some 0 then fs_target fs else Some fs) = Some t"
    using assms by auto
  have r: "(if fs_begin ?t' = None \<or> fs_begin ?t' = Some 0 then fs_target ?t' else Some ?t') = Some ?t'"
    using assms by auto
  show ?thesis
    apply (unfold as_web_annotation_def Let_def l r option.case e1 e2 e3)
    apply (unfold feature_structure.sel)
    apply (rule refl)
    done
qed

lemma py_min_returns: "xs \<noteq> [] \<Longrightarrow> \<exists>m. py_min xs = Inr m"
  by (cases xs) (simp_all add: py_min_def)

lemma py_max_returns: "xs \<noteq> [] \<Longrightarrow> \<exists>m. py_max xs = Inr m"
  by (cases xs) (simp_all add: py_max_def)

lemma xmi_to_xywh_returns:
  assumes "cs \<noteq> []"
  shows "\<exists>xywh. xmi_to_xywh cs = Inr xywh"
proof -
  from assms obtain a b c d where
    "py_min (map fst cs) = Inr a" "py_min (map snd cs) = Inr b"
    "py_max (map fst cs) = Inr c" "py_max (map snd cs) = Inr d"
    using py_min_returns [of "map fst cs"] py_min_returns [of "map snd cs"]
      py_max_returns [of "map fst cs"] py_max_returns [of "map snd cs"]
    by auto
  then show ?thesis by (simp add: xmi_to_xywh_def and_then_def Let_def)
qed

lemma interval_targets_returns:
  "\<forall>iv\<in>set ivs. coords (snd (snd iv)) \<noteq> [] \<Longrightarrow>
     \<exists>more. interval_targets ivs = Inr more \<and> length more = 3 * length ivs"
proof (induction ivs)
  case Nil
  then show ?case by simp
next
  case (Cons iv rest)
  then obtain more where m: "interval_targets rest = Inr more" "length more = 3 * length rest"
    by auto
  from Cons.prems obtain xywh where "xmi_to_xywh (coords (snd (snd iv))) = Inr xywh"
    using xmi_to_xywh_returns [of "coords (snd (snd iv))"] by auto
  with m show ?case by (simp add: and_then_def Let_def)
qed

lemma set_sorted_intervals: "set (sorted_intervals set_order ivs) = set ivs"
  by (simp add: sorted_intervals_def)

lemma sorted_intervals_ascending:
  "sorted (map (\<lambda>iv. (fst iv, fst (snd iv))) (sorted_intervals set_order ivs))"
proof -
  have "sorted (map (\<lambda>iv. (fst iv, fst (snd iv), set_order ivs iv)) (sorted_intervals set_order ivs))"
    by (simp add: sorted_intervals_def)
  then have "sorted_wrt (\<lambda>x y. (fst x, fst (snd x), set_order ivs x) \<le> (fst y, fst (snd y), set_order ivs y))
               (sorted_intervals set_order ivs)"
    by (simp add: sorted_map)
  then have "sorted_wrt (\<lambda>x y. (fst x, fst (snd x)) \<le> (fst y, fst (snd y)))
               (sorted_intervals set_order ivs)"
    by (rule sorted_wrt_mono_rel [rotated]) (auto simp: less_eq_prod_def less_prod_def)
  then show ?thesis by (simp add: sorted_map)
qed

text \<open>
  Every iteration order of the set is covered: when \<open>g\<close> numbers the intervals in the order of
  a listing of the set, sorting with \<open>g\<close> as the set order gives the stable sort of that listing
  by begin and end, which is what \<^verbatim>\<open>sorted(list(s))\<close> returns.
\<close>

lemma insort_key_refine:
  fixes k1 :: "'a \<Rightarrow> int" and k2 :: "'a \<Rightarrow> int" and g :: "'a \<Rightarrow> nat"
  assumes "\<forall>y\<in>set zs. g a < g y"
  shows "insort_key (\<lambda>x. (k1 x, k2 x)) a zs = insort_key (\<lambda>x. (k1 x, k2 x, g x)) a zs"
  using assms by (induction zs) (auto simp: less_eq_prod_def less_prod_def)

lemma sort_key_refine:
  fixes k1 :: "'a \<Rightarrow> int" and k2 :: "'a \<Rightarrow> int" and g :: "'a \<Rightarrow> nat"
  assumes "sorted_wrt (\<lambda>x y. g x < g y) p"
  shows "sort_key (\<lambda>x. (k1 x, k2 x)) p = sort_key (\<lambda>x. (k1 x, k2 x, g x)) p"
  using assms
proof (induction p)
  case Nil
  then show ?case by simp
next
  case (Cons a p)
  then have "\<forall>y\<in>set (sort_key (\<lambda>x. (k1 x, k2 x, g x)) p). g a < g y" by simp
  from insort_key_refine [OF this, of k1 k2] Cons show ?case by simp
qed

lemma sort_key_inj_permutation:
  fixes f :: "'a \<Rightarrow> 'b::linorder"
  assumes "set xs = set ys" and "inj_on f (set xs)" and "distinct xs" and "distinct ys"
  shows "sort_key f xs = sort_key f ys"
proof -
  have "map f (sort_key f xs) = map f (sort_key f ys)"
  proof (rule sorted_distinct_set_unique)
    show "sorted (map f (sort_key f xs))" by simp
    show "sorted (map f (sort_key f ys))" by simp
    show "distinct (map f (sort_key f xs))" using assms(2,3) by (simp add: distinct_map)
    show "distinct (map f (sort_key f ys))" using assms(1,2,4) by (simp add: distinct_map)
    show "set (map f (sort_key f xs)) = set (map f (sort_key f ys))" using assms(1) by simp
  qed
  moreover have "inj_on f (set (sort_key f xs) \<union> set (sort_key f ys))"
    using assms(1,2) by simp
  ultimately show ?thesis by (simp add: inj_on_map_eq_map)
qed

lemma sorted_intervals_follows_listing:
  assumes "set listing = set ivs" and "distinct ivs"
    and "sorted_wrt (\<lambda>x y. g x < g y) listing"
  shows "sorted_intervals (\<lambda>_. g) ivs = sort_key (\<lambda>iv. (fst iv, fst (snd iv))) listing"
proof -
  let ?f = "\<lambda>iv::interval. (fst iv, fst (snd iv), g iv)"
  from assms(3) have d: "distinct listing"
    by (induction listing) auto
  from assms(3) have "inj_on g (set listing)"
    by (induction listing) (auto simp: inj_on_def)
  then have inj: "inj_on ?f (set listing)" by (auto simp: inj_on_def)
  have "sort_key (\<lambda>iv. (fst iv, fst (snd iv))) listing = sort_key ?f listing"
    by (rule sort_key_refine [OF assms(3)])
  also have "\<dots> = sort_key ?f ivs"
    by (rule sort_key_inj_permutation [OF assms(1) inj d assms(2)])
  finally show ?thesis by (simp add: sorted_intervals_def)
qed

text \<open>
  Among intervals with the same begin and end the order of the targets follows the iteration
  order of the set: the two tied intervals come out in either order.
\<close>

lemma tie_order_follows_set_order:
  "sorted_intervals sample_set_order tied_intervals = rev tied_intervals
   \<and> sorted_intervals (\<lambda>ivs iv. 0) tied_intervals = tied_intervals"
  by code_simp

lemma as_web_annotation_falsy_value:
  assumes "fs_begin fs = None \<or> fs_begin fs = Some 0" and "fs_target fs = Some t"
    and "fs_begin t = Some b" and "fs_end t = Some e"
    and "interval_targets (sorted_intervals set_order (itree_overlap (xp_itree self) b e)) = Inr others"
  shows "\<exists>tqs. json_get tqs ''exact'' = Inr (JStr (get_covered_text self t))
           \<and> as_web_annotation self set_order generated fs body =
               Inr (JDict
                      [(''@context'', JStr ''http://www.w3.org/ns/anno.jsonld''),
                       (''id'', JStr (''urn:globalise:annotation:'' @ str_int (xmiID fs))),
                       (''type'', JStr ''Annotation''),
                       (''generated'', JStr generated),
                       (''body'', body),
                       (''target'', JList
                          (JDict [(''source'', JStr (xp_plain_text_source self)),
                                  (''selector'', JList
                                     [tqs,
                                      JDict [(''type'', JStr ''TextPositionSelector''),
                                             (''start'', JInt b),
                                             (''end'', JInt e)]])] # others))],
                    if 1 < length (itree_overlap (xp_itree self) b e)
                    then [LogWarning ''>1 overlapping intervals!''] else [])"
proof -
  from assms(3) obtain prefix where p: "get_prefix self t = Inr prefix"
    using get_prefix_returns by blast
  from assms(4) obtain suffix where s: "get_suffix self t = Inr suffix"
    using get_suffix_returns by blast
  let ?tqs = "JDict ([(''type'', JStr ''TextQuoteSelector''),
                      (''exact'', JStr (get_covered_text self t))]
                     @ (if prefix \<noteq> [] then [(''prefix'', JStr prefix)] else [])
                     @ (if suffix \<noteq> [] then [(''suffix'', JStr suffix)] else []))"
  have q: "json_get ?tqs ''exact'' = Inr (JStr (get_covered_text self t))"
    by (simp add: json_get_def)
  have l: "(if fs_begin fs = None \<or> fs_begin fs = Some 0 then fs_target fs else Some fs) = Some t"
    using assms(1,2) by auto
  have "as_web_annotation self set_order generated fs body =
               Inr (JDict
                      [(''@context'', JStr ''http://www.w3.org/ns/anno.jsonld''),
                       (''id'', JStr (''urn:globalise:annotation:'' @ str_int (xmiID fs))),
                       (''type'', JStr ''Annotation''),
                       (''generated'', JStr generated),
                       (''body'', body),
                       (''target'', JList
                          (JDict [(''source'', JStr (xp_plain_text_source self)),
                                  (''selector'', JList
                                     [?tqs,
                                      JDict [(''type'', JStr ''TextPositionSelector''),
                                             (''start'', JInt b),
                                             (''end'', JInt e)]])] # others))],
                    if 1 < length (itree_overlap (xp_itree self) b e)
                    then [LogWarning ''>1 overlapping intervals!''] else [])"
    unfolding as_web_annotation_def Let_def l option.case p s assms(3,4)
    by (simp add: and_then_def assms(5))
  with q show ?thesis by blast
qed

lemma as_web_annotation_falsy_returns:
  assumes "fs_begin fs = None \<or> fs_begin fs = Some 0" and "fs_target fs = Some t"
    and "fs_begin t = Some b" and "fs_end t = Some e"
    and "\<forall>iv\<in>set (itree_overlap (xp_itree self) b e). coords (snd (snd iv)) \<noteq> []"
  shows "\<exists>wa l. as_web_annotation self set_order generated fs body = Inr (wa, l)"
proof -
  from assms(5) have
    "\<forall>iv\<in>set (sorted_intervals set_order (itree_overlap (xp_itree self) b e)). coords (snd (snd iv)) \<noteq> []"
    by (simp add: set_sorted_intervals)
  then obtain others where
    "interval_targets (sorted_intervals set_order (itree_overlap (xp_itree self) b e)) = Inr others"
    using interval_targets_returns by blast
  from as_web_annotation_falsy_value [OF assms(1,2,3,4) this] show ?thesis by blast
qed

lemma sample_fs_at_zero_value:
  "as_web_annotation sample_processor sample_set_order ''2024-01-01T00:00:00'' sample_fs_at_zero (JList []) =
     Inr (JDict
            [(''@context'', JStr ''http://www.w3.org/ns/anno.jsonld''),
             (''id'', JStr ''urn:globalise:annotation:7''),
             (''type'', JStr ''Annotation''),
             (''generated'', JStr ''2024-01-01T00:00:00''),
             (''body'', JList []),
             (''target'', JList
                [JDict [(''source'', JStr ''urn:text:1''),
                        (''selector'', JList
                           [JDict [(''type'', JStr ''TextQuoteSelector''),
                                   (''exact'', JStr ''brave''),
                                   (''suffix'', JStr '' new'')],
                            JDict [(''type'', JStr ''TextPositionSelector''),
                                   (''start'', JInt 6),
                                   (''end'', JInt 11)]])],
                 xmi_image_target ''https://iiif.example/img1'' ''0,0,10,5'',
                 xmi_image_selector_target ''https://iiif.example/img1'' ''0,0,10,5'',
                 xmi_canvas_target ''urn:canvas:1'' ''0,0,10,5''])],
          [])"
  by code_simp

text \<open>
  Claim C10. A feature structure whose \<^verbatim>\<open>begin\<close> is falsy, that is \<^verbatim>\<open>None\<close> or the character
  offset 0, is replaced by its \<^verbatim>\<open>target\<close> before anything is computed from it. Without a target
  the call fails. With a target \<open>t\<close>, every result carries the id of the original structure, the
  TextQuoteSelector holds the covered text of \<open>t\<close>, the TextPositionSelector holds begin and end
  of \<open>t\<close>, and the image and canvas targets are those of the intervals that overlap the range of
  \<open>t\<close>; when the begin of \<open>t\<close> is itself not falsy, the result is the one the function gives for
  \<open>t\<close> under the original id. The begin and end of the original structure are not read. An
  annotation is returned whenever \<open>t\<close> has a begin and an end and every overlapping interval has
  a point in its polygon, and it is then the annotation with exactly these selectors and targets.
\<close>

theorem falsy_begin_reads_target:
  assumes "fs_begin fs = None \<or> fs_begin fs = Some 0"
  shows "(fs_target fs = None \<longrightarrow> as_web_annotation self set_order generated fs body = Inl AttributeError)
     \<and> (\<forall>t. fs_target fs = Some t \<longrightarrow>
          (fs_begin t \<noteq> None \<and> fs_begin t \<noteq> Some 0 \<longrightarrow>
             as_web_annotation self set_order generated fs body =
             as_web_annotation self set_order generated
               (FeatureStructure (xmiID fs) (fs_begin t) (fs_end t) (fs_target t)) body)
          \<and> (\<forall>wa l. as_web_annotation self set_order generated fs body = Inr (wa, l) \<longrightarrow>
               (\<exists>b e tqs more. fs_begin t = Some b \<and> fs_end t = Some e
                  \<and> json_get tqs ''exact'' = Inr (JStr (get_covered_text self t))
                  \<and> interval_targets (sorted_intervals set_order (itree_overlap (xp_itree self) b e)) = Inr more
                  \<and> json_get wa ''id'' = Inr (JStr (''urn:globalise:annotation:'' @ str_int (xmiID fs)))
                  \<and> json_get wa ''target'' =
                      Inr (JList (JDict [(''source'', JStr (xp_plain_text_source self)),
                                         (''selector'', JList
                                            [tqs,
                                             JDict [(''type'', JStr ''TextPositionSelector''),
                                                    (''start'', JInt b),
                                                    (''end'', JInt e)]])] # more))))
          \<and> (\<forall>b e. fs_begin t = Some b \<and> fs_end t = Some e
                     \<and> (\<forall>iv\<in>set (itree_overlap (xp_itree self) b e). coords (snd (snd iv)) \<noteq> []) \<longrightarrow>
               (\<exists>wa l. as_web_annotation self set_order generated fs body = Inr (wa, l)))
          \<and> (\<forall>b e others. fs_begin t = Some b \<and> fs_end t = Some e
                     \<and> interval_targets (sorted_intervals set_order (itree_overlap (xp_itree self) b e)) = Inr others \<longrightarrow>
               (\<exists>tqs. json_get tqs ''exact'' = Inr (JStr (get_covered_text self t))
                  \<and> as_web_annotation self set_order generated fs body =
                      Inr (JDict
                             [(''@context'', JStr ''http://www.w3.org/ns/anno.jsonld''),
                              (''id'', JStr (''urn:globalise:annotation:'' @ str_int (xmiID fs))),
                              (''type'', JStr ''Annotation''),
                              (''generated'', JStr generated),
                              (''body'', body),
                              (''target'', JList
                                 (JDict [(''source'', JStr (xp_plain_text_source self)),
                                         (''selector'', JList
                                            [tqs,
                                             JDict [(''type'', JStr ''TextPositionSelector''),
                                                    (''start'', JInt b),
                                                    (''end'', JInt e)]])] # others))],
                           if 1 < length (itree_overlap (xp_itree self) b e)
                           then [LogWarning ''>1 overlapping intervals!''] else []))))"
proof (intro conjI impI allI)
  assume "fs_target fs = None"
  with assms show "as_web_annotation self set_order generated fs body = Inl AttributeError"
    by (rule as_web_annotation_no_target)
next
  fix t assume "fs_target fs = Some t" and "fs_begin t \<noteq> None \<and> fs_begin t \<noteq> Some 0"
  with assms show "as_web_annotation self set_order generated fs body =
             as_web_annotation self set_order generated
               (FeatureStructure (xmiID fs) (fs_begin t) (fs_end t) (fs_target t)) body"
    by (intro as_web_annotation_falsy_eq) simp_all
next
  fix t wa l
  assume "fs_target fs = Some t" and "as_web_annotation self set_order generated fs body = Inr (wa, l)"
  with assms show "\<exists>b e tqs more. fs_begin t = Some b \<and> fs_end t = Some e
                  \<and> json_get tqs ''exact'' = Inr (JStr (get_covered_text self t))
                  \<and> interval_targets (sorted_intervals set_order (itree_overlap (xp_itree self) b e)) = Inr more
                  \<and> json_get wa ''id'' = Inr (JStr (''urn:globalise:annotation:'' @ str_int (xmiID fs)))
                  \<and> json_get wa ''target'' =
                      Inr (JList (JDict [(''source'', JStr (xp_plain_text_source self)),
                                         (''selector'', JList
                                            [tqs,
                                             JDict [(''type'', JStr ''TextPositionSelector''),
                                                    (''start'', JInt b),
                                                    (''end'', JInt e)]])] # more))"
    by (rule as_web_annotation_falsy_Inr)
next
  fix t b e
  assume t: "fs_target fs = Some t"
    and h: "fs_begin t = Some b \<and> fs_end t = Some e
            \<and> (\<forall>iv\<in>set (itree_overlap (xp_itree self) b e). coords (snd (snd iv)) \<noteq> [])"
  from h have "fs_begin t = Some b" "fs_end t = Some e"
    "\<forall>iv\<in>set (itree_overlap (xp_itree self) b e). coords (snd (snd iv)) \<noteq> []"
    by simp_all
  with assms t show "\<exists>wa l. as_web_annotation self set_order generated fs body = Inr (wa, l)"
    by (rule as_web_annotation_falsy_returns)
next
  fix t b e others
  assume t: "fs_target fs = Some t"
    and h: "fs_begin t = Some b \<and> fs_end t = Some e
            \<and> interval_targets (sorted_intervals set_order (itree_overlap (xp_itree self) b e)) = Inr others"
  from h have "fs_begin t = Some b" "fs_end t = Some e"
    "interval_targets (sorted_intervals set_order (itree_overlap (xp_itree self) b e)) = Inr others"
    by simp_all
  with assms t show "\<exists>tqs. json_get tqs ''exact'' = Inr (JStr (get_covered_text self t))
                  \<and> as_web_annotation self set_order generated fs body =
                      Inr (JDict
                             [(''@context'', JStr ''http://www.w3.org/ns/anno.jsonld''),
                              (''id'', JStr (''urn:globalise:annotation:'' @ str_int (xmiID fs))),
                              (''type'', JStr ''Annotation''),
                              (''generated'', JStr generated),
                              (''body'', body),
                              (''target'', JList
                                 (JDict [(''source'', JStr (xp_plain_text_source self)),
                                         (''selector'', JList
                                            [tqs,
                                             JDict [(''type'', JStr ''TextPositionSelector''),
                                                    (''start'', JInt b),
                                                    (''end'', JInt e)]])] # others))],
                           if 1 < length (itree_overlap (xp_itree self) b e)
                           then [LogWarning ''>1 overlapping intervals!''] else [])"
    by (rule as_web_annotation_falsy_value)
qed

theorem falsy_begin_reads_target_witness:
  "fs_begin sample_fs_at_zero = Some 0
   \<and> fs_end sample_fs_at_zero = Some 5
   \<and> fs_target sample_fs_at_zero = Some sample_target_fs
   \<and> (\<exists>wa l. as_web_annotation sample_processor sample_set_order ''2024-01-01T00:00:00''
                 sample_fs_at_zero (JList []) = Inr (wa, l))
   \<and> as_web_annotation sample_processor sample_set_order ''2024-01-01T00:00:00'' sample_fs_at_zero (JList []) =
       Inr (JDict
              [(''@context'', JStr ''http://www.w3.org/ns/anno.jsonld''),
               (''id'', JStr ''urn:globalise:annotation:7''),
               (''type'', JStr ''Annotation''),
               (''generated'', JStr ''2024-01-01T00:00:00''),
               (''body'', JList []),
               (''target'', JList
                  [JDict [(''source'', JStr ''urn:text:1''),
                          (''selector'', JList
                             [JDict [(''type'', JStr ''TextQuoteSelector''),
                                     (''exact'', JStr ''brave''),
                                     (''suffix'', JStr '' new'')],
                              JDict [(''type'', JStr ''TextPositionSelector''),
                                     (''start'', JInt 6),
                                     (''end'', JInt 11)]])],
                   xmi_image_target ''https://iiif.example/img1'' ''0,0,10,5'',
                   xmi_image_selector_target ''https://iiif.example/img1'' ''0,0,10,5'',
                   xmi_canvas_target ''urn:canvas:1'' ''0,0,10,5''])],
            [])
   \<and> as_web_annotation sample_processor sample_set_order ''2024-01-01T00:00:00'' sample_fs_at_zero (JList []) =
       as_web_annotation sample_processor sample_set_order ''2024-01-01T00:00:00''
         (FeatureStructure 7 (Some 6) (Some 11) None) (JList [])
   \<and> as_web_annotation sample_processor sample_set_order ''2024-01-01T00:00:00'' sample_fs_at_zero_no_target (JList [])
       = Inl AttributeError"
proof -
  have f: "fs_begin sample_fs_at_zero = None \<or> fs_begin sample_fs_at_zero = Some 0"
    "fs_target sample_fs_at_zero = Some sample_target_fs"
    "fs_begin sample_target_fs \<noteq> None \<and> fs_begin sample_target_fs \<noteq> Some 0"
    by (simp_all add: sample_fs_at_zero_def sample_target_fs_def)
  have g: "fs_begin sample_fs_at_zero_no_target = None \<or> fs_begin sample_fs_at_zero_no_target = Some 0"
    "fs_target sample_fs_at_zero_no_target = None"
    by (simp_all add: sample_fs_at_zero_no_target_def)
  have p: "fs_begin sample_target_fs = Some 6 \<and> fs_end sample_target_fs = Some 11
           \<and> (\<forall>iv\<in>set (itree_overlap (xp_itree sample_processor) 6 11). coords (snd (snd iv)) \<noteq> [])"
    by (simp add: sample_target_fs_def sample_processor_def itree_overlap_def)
  note th = falsy_begin_reads_target
    [OF f(1), of sample_processor sample_set_order "''2024-01-01T00:00:00''" "JList []"]
  from th f(2,3)
  have "as_web_annotation sample_processor sample_set_order ''2024-01-01T00:00:00'' sample_fs_at_zero (JList []) =
        as_web_annotation sample_processor sample_set_order ''2024-01-01T00:00:00''
          (FeatureStructure (xmiID sample_fs_at_zero) (fs_begin sample_target_fs)
             (fs_end sample_target_fs) (fs_target sample_target_fs)) (JList [])"
    by blast
  moreover from th f(2) p
  have "\<exists>wa l. as_web_annotation sample_processor sample_set_order ''2024-01-01T00:00:00''
                 sample_fs_at_zero (JList []) = Inr (wa, l)"
    by blast
  moreover from falsy_begin_reads_target [OF g(1), of sample_processor sample_set_order "''2024-01-01T00:00:00''" "JList []"] g(2)
  have "as_web_annotation sample_processor sample_set_order ''2024-01-01T00:00:00'' sample_fs_at_zero_no_target (JList [])
       = Inl AttributeError"
    by blast
  ultimately show ?thesis
    using sample_fs_at_zero_value by (simp add: sample_fs_at_zero_def sample_target_fs_def)
qed


lemma itree_overlap_Nil: "itree_overlap [] b e = []"
  by (simp add: itree_overlap_def)

lemma as_web_annotation_returns:
  assumes "fs_begin fs = Some b" and "b \<noteq> 0" and "fs_end fs = Some e" and "xp_itree self = []"
  shows "\<exists>wa l. as_web_annotation self set_order generated fs body = Inr (wa, l)"
proof -
  from assms(1) obtain p where p: "get_prefix self fs = Inr p" using get_prefix_returns by blast
  from assms(3) obtain s where s: "get_suffix self fs = Inr s" using get_suffix_returns by blast
  have "interval_targets (sorted_intervals set_order (itree_overlap (xp_itree self) b e)) = Inr []"
    using assms(4) by (simp add: itree_overlap_Nil sorted_intervals_def)
  with p s assms(3) show ?thesis
    unfolding as_web_annotation_truthy [OF assms(1,2)] by (simp add: and_then_def)
qed

text \<open>
  Claim C7. When no document-data record has the checksum of the text, the processor is built
  with the source \<^verbatim>\<open>"urn:placeholder"\<close> and an empty interval index, and an error is logged.
  Every web annotation this processor returns has exactly one target, the text target with the
  placeholder source, the TextQuoteSelector and the TextPositionSelector: no target of type
  Image or Canvas. The processor does return an annotation for every feature structure with a
  begin other than 0 and an end.
\<close>

theorem xmi_fallback_text_only:
  assumes "\<forall>d\<in>set (map snd document_data). plain_text_md5 d \<noteq> md5 text"
  shows "XMIProcessor_init md5 document_data xmi_path text =
           Inr (\<lparr>xp_text = text, xp_text_len = int (length text),
                 xp_plain_text_source = ''urn:placeholder'', xp_itree = []\<rparr>,
                [LogInfo (''<= '' @ xmi_path),
                 LogError (''No document data found for '' @ xmi_path
                           @ '', using placeholder target source'')])
     \<and> (\<forall>set_order generated fs body wa l.
          as_web_annotation
            \<lparr>xp_text = text, xp_text_len = int (length text),
             xp_plain_text_source = ''urn:placeholder'', xp_itree = []\<rparr> set_order generated fs body = Inr (wa, l)
          \<longrightarrow> (\<exists>tqs b e targets.
                 json_get wa ''target'' = Inr (JList targets)
                 \<and> targets = [JDict [(''source'', JStr ''urn:placeholder''),
                                     (''selector'', JList
                                        [tqs,
                                         JDict [(''type'', JStr ''TextPositionSelector''),
                                                (''start'', JInt b),
                                                (''end'', JInt e)]])]]
                 \<and> (\<forall>t\<in>set targets. json_get t ''type'' \<noteq> Inr (JStr ''Image'')
                                       \<and> json_get t ''type'' \<noteq> Inr (JStr ''Canvas''))))
     \<and> (\<forall>set_order generated i b e tgt body. b \<noteq> 0 \<longrightarrow>
          (\<exists>wa l. as_web_annotation
                     \<lparr>xp_text = text, xp_text_len = int (length text),
                      xp_plain_text_source = ''urn:placeholder'', xp_itree = []\<rparr> set_order generated
                     (FeatureStructure i (Some b) (Some e) tgt) body = Inr (wa, l)))"
proof (intro conjI allI impI)
  from assms have "filter (\<lambda>d. plain_text_md5 d = md5 text) (map snd document_data) = []"
    by (simp add: filter_empty_conv)
  then show "XMIProcessor_init md5 document_data xmi_path text =
           Inr (\<lparr>xp_text = text, xp_text_len = int (length text),
                 xp_plain_text_source = ''urn:placeholder'', xp_itree = []\<rparr>,
                [LogInfo (''<= '' @ xmi_path),
                 LogError (''No document data found for '' @ xmi_path
                           @ '', using placeholder target source'')])"
    by (simp add: XMIProcessor_init_def Let_def)
next
  let ?p = "\<lparr>xp_text = text, xp_text_len = int (length text),
             xp_plain_text_source = ''urn:placeholder'', xp_itree = []\<rparr>"
  fix set_order generated fs body wa l
  assume "as_web_annotation ?p set_order generated fs body = Inr (wa, l)"
  from as_web_annotation_Inr [OF this] obtain b e tqs more where
    m: "interval_targets (sorted_intervals set_order (itree_overlap (xp_itree ?p) b e)) = Inr more"
    and w: "json_get wa ''target'' =
               Inr (JList (JDict [(''source'', JStr (xp_plain_text_source ?p)),
                                  (''selector'', JList
                                     [tqs,
                                      JDict [(''type'', JStr ''TextPositionSelector''),
                                             (''start'', JInt b),
                                             (''end'', JInt e)]])] # more))"
    by blast
  from m have "more = []" by (simp add: itree_overlap_Nil sorted_intervals_def)
  with w have "json_get wa ''target'' =
      Inr (JList [JDict [(''source'', JStr ''urn:placeholder''),
                         (''selector'', JList
                            [tqs,
                             JDict [(''type'', JStr ''TextPositionSelector''),
                                    (''start'', JInt b),
                                    (''end'', JInt e)]])]])"
    by simp
  moreover have "\<forall>t\<in>set [JDict [(''source'', JStr ''urn:placeholder''),
                         (''selector'', JList
                            [tqs,
                             JDict [(''type'', JStr ''TextPositionSelector''),
                                    (''start'', JInt b),
                                    (''end'', JInt e)]])]].
        json_get t ''type'' \<noteq> Inr (JStr ''Image'') \<and> json_get t ''type'' \<noteq> Inr (JStr ''Canvas'')"
    by (simp add: json_get_def)
  ultimately show "\<exists>tqs b e targets.
                 json_get wa ''target'' = Inr (JList targets)
                 \<and> targets = [JDict [(''source'', JStr ''urn:placeholder''),
                                     (''selector'', JList
                                        [tqs,
                                         JDict [(''type'', JStr ''TextPositionSelector''),
                                                (''start'', JInt b),
                                                (''end'', JInt e)]])]]
                 \<and> (\<forall>t\<in>set targets. json_get t ''type'' \<noteq> Inr (JStr ''Image'')
                                       \<and> json_get t ''type'' \<noteq> Inr (JStr ''Canvas''))"
    by blast
next
  fix set_order and generated :: string and i b e :: int and tgt body
  assume "b \<noteq> 0"
  then show "\<exists>wa l. as_web_annotation
                     \<lparr>xp_text = text, xp_text_len = int (length text),
                      xp_plain_text_source = ''urn:placeholder'', xp_itree = []\<rparr> set_order generated
                     (FeatureStructure i (Some b) (Some e) tgt) body = Inr (wa, l)"
    by (intro as_web_annotation_returns [of _ b e]) simp_all
qed

theorem xmi_fallback_text_only_witness:
  "map plain_text_md5 (map snd sample_document_data) = [''0cc175b9c0f1b6a831c399e269772661'']
   \<and> sample_md5 ''Hello brave new world'' = ''d41d8cd98f00b204e9800998ecf8427e''
   \<and> XMIProcessor_init sample_md5 sample_document_data ''doc.xmi'' ''Hello brave new world'' =
       Inr (\<lparr>xp_text = ''Hello brave new world'', xp_text_len = 21,
             xp_plain_text_source = ''urn:placeholder'', xp_itree = []\<rparr>,
            [LogInfo ''<= doc.xmi'',
             LogError ''No document data found for doc.xmi, using placeholder target source''])
   \<and> as_web_annotation
        \<lparr>xp_text = ''Hello brave new world'', xp_text_len = 21,
         xp_plain_text_source = ''urn:placeholder'', xp_itree = []\<rparr>
        sample_set_order ''2024-01-01T00:00:00'' sample_target_fs (JList []) =
       Inr (JDict
              [(''@context'', JStr ''http://www.w3.org/ns/anno.jsonld''),
               (''id'', JStr ''urn:globalise:annotation:8''),
               (''type'', JStr ''Annotation''),
               (''generated'', JStr ''2024-01-01T00:00:00''),
               (''body'', JList []),
               (''target'', JList
                  [JDict [(''source'', JStr ''urn:placeholder''),
                          (''selector'', JList
                             [JDict [(''type'', JStr ''TextQuoteSelector''),
                                     (''exact'', JStr ''brave''),
                                     (''suffix'', JStr '' new'')],
                              JDict [(''type'', JStr ''TextPositionSelector''),
                                     (''start'', JInt 6),
                                     (''end'', JInt 11)]])]])],
            [])"
proof -
  have h: "\<forall>d\<in>set (map snd sample_document_data). plain_text_md5 d \<noteq> sample_md5 ''Hello brave new world''"
    by (simp add: sample_document_data_def sample_md5_def)
  have v: "as_web_annotation
        \<lparr>xp_text = ''Hello brave new world'', xp_text_len = 21,
         xp_plain_text_source = ''urn:placeholder'', xp_itree = []\<rparr>
        sample_set_order ''2024-01-01T00:00:00'' sample_target_fs (JList []) =
       Inr (JDict
              [(''@context'', JStr ''http://www.w3.org/ns/anno.jsonld''),
               (''id'', JStr ''urn:globalise:annotation:8''),
               (''type'', JStr ''Annotation''),
               (''generated'', JStr ''2024-01-01T00:00:00''),
               (''body'', JList []),
               (''target'', JList
                  [JDict [(''source'', JStr ''urn:placeholder''),
                          (''selector'', JList
                             [JDict [(''type'', JStr ''TextQuoteSelector''),
                                     (''exact'', JStr ''brave''),
                                     (''suffix'', JStr '' new'')],
                              JDict [(''type'', JStr ''TextPositionSelector''),
                                     (''start'', JInt 6),
                                     (''end'', JInt 11)]])]])],
            [])"
    by code_simp
  from xmi_fallback_text_only
         [of sample_document_data sample_md5 "''Hello brave new world''" "''doc.xmi''"] h v
  show ?thesis by (simp add: sample_document_data_def sample_md5_def)
qed

end
